theory Spec2Isabelle
  imports Main "HOL-Library.AList"
begin

section \<open>JavaScript values, strings and paths\<close>

text \<open>
  The module under verification is \<^verbatim>\<open>src/app/background-process/web-apis/workspaces.js\<close>.
  Arguments that arrive from the caller are untyped JavaScript values; only their
  \<^verbatim>\<open>typeof\<close>, \<^verbatim>\<open>Array.isArray\<close> and truthiness are inspected by the module.
\<close>

datatype jsval =
    JUndefined
  | JNull
  | JBool bool
  | JNum int
  | JStr string
  | JArr "jsval list"
  | JObj

type_synonym path = string

text \<open>\<^verbatim>\<open>path.sep\<close> on a POSIX host; the module compares against the literal \<^verbatim>\<open>'/'\<close> as well.\<close>

definition path_sep :: char where
  "path_sep = CHR ''/''"

text \<open>\<^verbatim>\<open>String.prototype.startsWith\<close>, \<^verbatim>\<open>endsWith\<close>, \<^verbatim>\<open>charAt\<close> (the empty string out
  of range) and \<^verbatim>\<open>split\<close> on a one-character separator (never an empty result).\<close>

definition startsWith :: "string \<Rightarrow> string \<Rightarrow> bool" where
  "startsWith s pre = (take (length pre) s = pre)"

definition endsWith :: "string \<Rightarrow> string \<Rightarrow> bool" where
  "endsWith s suf = (length suf \<le> length s \<and> drop (length s - length suf) s = suf)"

definition charAt :: "string \<Rightarrow> nat \<Rightarrow> string" where
  "charAt s i = (if i < length s then [s ! i] else [])"

fun splitOn :: "char \<Rightarrow> string \<Rightarrow> string list" where
  "splitOn c [] = [[]]"
| "splitOn c (x # xs) =
     (if x = c then [] # splitOn c xs
      else (case splitOn c xs of [] \<Rightarrow> [[x]] | s # ss \<Rightarrow> (x # s) # ss))"

fun joinWith :: "string \<Rightarrow> string list \<Rightarrow> string" where
  "joinWith d [] = []"
| "joinWith d [s] = s"
| "joinWith d (s # t # ss) = s @ d @ joinWith d (t # ss)"

subsection \<open>Node's \<^verbatim>\<open>path.normalize\<close> (POSIX)\<close>

text \<open>
  \<^verbatim>\<open>normalizeString\<close> walks the segments between separators: empty segments and
  \<^verbatim>\<open>.\<close> are dropped, \<^verbatim>\<open>..\<close> removes the segment before it unless there is none or it
  is itself \<^verbatim>\<open>..\<close>; in that case it is kept for a relative path and dropped for an
  absolute one. The accumulator holds the segments kept so far, in order.
\<close>

fun normalizeSegments :: "bool \<Rightarrow> string list \<Rightarrow> string list \<Rightarrow> string list" where
  "normalizeSegments allowAboveRoot res [] = res"
| "normalizeSegments allowAboveRoot res (s # ss) =
     (if s = [] \<or> s = ''.'' then normalizeSegments allowAboveRoot res ss
      else if s = ''..'' then
        (if res \<noteq> [] \<and> last res \<noteq> ''..'' then normalizeSegments allowAboveRoot (butlast res) ss
         else if allowAboveRoot then normalizeSegments allowAboveRoot (res @ [''..'']) ss
         else normalizeSegments allowAboveRoot res ss)
      else normalizeSegments allowAboveRoot (res @ [s]) ss)"

definition path_normalize :: "path \<Rightarrow> path" where
  "path_normalize p =
     (if p = [] then ''.''
      else
        let isAbsolute = (hd p = path_sep);
            trailingSeparator = (last p = path_sep);
            body = joinWith [path_sep] (normalizeSegments (\<not> isAbsolute) [] (splitOn path_sep p))
        in if body = [] then (if isAbsolute then ''/'' else if trailingSeparator then ''./'' else ''.'')
           else (if isAbsolute then ''/'' else []) @ body @ (if trailingSeparator then ''/'' else []))"

section \<open>Path-scope filter\<close>

text \<open>
  \<^verbatim>\<open>makeDiffFilterByPaths\<close>: the target paths are normalized once, then the returned
  closure loops over them with early returns. \<^verbatim>\<open>isParentFolder\<close> is the last test of the
  loop body, \<^verbatim>\<open>targetPath.startsWith(filepath) && targetPath.charAt(filepath.length) === '/'\<close>.
\<close>

definition isParentFolder :: "path \<Rightarrow> path \<Rightarrow> bool" where
  "isParentFolder targetPath filepath =
     (startsWith targetPath filepath \<and> charAt targetPath (length filepath) = ''/'')"

fun pathsFilterLoop :: "path list \<Rightarrow> path \<Rightarrow> bool" where
  "pathsFilterLoop [] filepath = True"
| "pathsFilterLoop (targetPath # rest) filepath =
     (if endsWith targetPath [path_sep] then
        (if filepath = butlast targetPath then False
         else if startsWith filepath targetPath then False
         else if isParentFolder targetPath filepath then False
         else pathsFilterLoop rest filepath)
      else
        (if filepath = targetPath then False
         else if isParentFolder targetPath filepath then False
         else pathsFilterLoop rest filepath))"

definition makeDiffFilterByPaths :: "path list \<Rightarrow> path \<Rightarrow> bool" where
  "makeDiffFilterByPaths targetPaths = pathsFilterLoop (map path_normalize targetPaths)"

subsection \<open>The scope as the specification words it\<close>

text \<open>
  A path is in the scope of an allow-list when it equals a target, lies strictly below a
  target that ends with the separator, or is a strict ancestor directory of a target:
  the path followed by the separator is a prefix of the target.
\<close>

definition equalsTarget :: "path list \<Rightarrow> path \<Rightarrow> bool" where
  "equalsTarget targets filepath = (\<exists>t \<in> set targets. filepath = t)"

definition belowDirectoryTarget :: "path list \<Rightarrow> path \<Rightarrow> bool" where
  "belowDirectoryTarget targets filepath =
     (\<exists>t \<in> set targets. endsWith t [path_sep] \<and> startsWith filepath t \<and> length t < length filepath)"

definition ancestorOfTarget :: "path list \<Rightarrow> path \<Rightarrow> bool" where
  "ancestorOfTarget targets filepath =
     (\<exists>t \<in> set targets. startsWith t (filepath @ [path_sep]))"

definition inScope :: "path list \<Rightarrow> path \<Rightarrow> bool" where
  "inScope targets filepath =
     (equalsTarget targets filepath \<or> belowDirectoryTarget targets filepath
      \<or> ancestorOfTarget targets filepath)"

section \<open>Trees\<close>

text \<open>
  A tree (the scoped local folder or the archive) is a finite store of nodes keyed by
  path: a file with its bytes, or a directory. \<^verbatim>\<open>fs.stat\<close> and \<^verbatim>\<open>fs.readFile\<close> call back
  with an error or with data; reading a directory or a missing path is an error.
\<close>

datatype node = File string | Dir

type_synonym tree = "(path \<times> node) list"

datatype fsError = ENOENT | EISDIR

record fstat =
  isFile :: bool
  stat_size :: nat

definition fs_stat :: "tree \<Rightarrow> path \<Rightarrow> fsError + fstat" where
  "fs_stat fs filepath =
     (case map_of fs filepath of
        None \<Rightarrow> Inl ENOENT
      | Some (File data) \<Rightarrow> Inr \<lparr>isFile = True, stat_size = length data\<rparr>
      | Some Dir \<Rightarrow> Inr \<lparr>isFile = False, stat_size = 0\<rparr>)"

definition fs_readFile :: "tree \<Rightarrow> path \<Rightarrow> fsError + string" where
  "fs_readFile fs filepath =
     (case map_of fs filepath of
        None \<Rightarrow> Inl ENOENT
      | Some (File data) \<Rightarrow> Inr data
      | Some Dir \<Rightarrow> Inl EISDIR)"

text \<open>The module's two promise helpers: \<^verbatim>\<open>resolve(data || null)\<close> and
  \<^verbatim>\<open>resolve(data || '')\<close>; the error argument of the callback is never looked at.\<close>

definition stat :: "tree \<Rightarrow> path \<Rightarrow> fstat option" where
  "stat fs filepath = (case fs_stat fs filepath of Inl err \<Rightarrow> None | Inr data \<Rightarrow> Some data)"

definition readFile :: "tree \<Rightarrow> path \<Rightarrow> string" where
  "readFile fs filepath = (case fs_readFile fs filepath of Inl err \<Rightarrow> [] | Inr data \<Rightarrow> data)"

section \<open>Ignore rules\<close>

text \<open>
  \<^verbatim>\<open>readDatIgnore\<close>: split the ignore file at newlines, drop the empty lines
  (\<^verbatim>\<open>filter(Boolean)\<close>), prefix \<^verbatim>\<open>**/\<close> to a line that does not start with \<^verbatim>\<open>/\<close>, append the
  two fixed rules, normalize every rule.
\<close>

definition prefixRule :: "string \<Rightarrow> string" where
  "prefixRule rule = (if \<not> startsWith rule ''/'' then ''**/'' @ rule else rule)"

definition ignoreRulesOf :: "string \<Rightarrow> string list" where
  "ignoreRulesOf rulesRaw =
     map path_normalize
       (map prefixRule (filter (\<lambda>line. line \<noteq> []) (splitOn (CHR 0x0A) rulesRaw))
        @ [''/.git'', ''/.dat''])"

definition readDatIgnore :: "tree \<Rightarrow> string list" where
  "readDatIgnore fs = ignoreRulesOf (readFile fs ''.datignore'')"

text \<open>
  \<^verbatim>\<open>anymatch(rules, filepath)\<close> holds when one of the rules matches the path. The glob
  matcher for a single rule belongs to the \<^verbatim>\<open>anymatch\<close> package and is a parameter.
\<close>

definition anymatch :: "(string \<Rightarrow> path \<Rightarrow> bool) \<Rightarrow> string list \<Rightarrow> path \<Rightarrow> bool" where
  "anymatch globMatch rules filepath = (\<exists>rule \<in> set rules. globMatch rule filepath)"

section \<open>Diff options\<close>

text \<open>
  The caller's options object, and the object \<^verbatim>\<open>massageDiffOpts\<close> builds from it. The
  module later stores the filter in the same object and hands it to the diff engine;
  \<^verbatim>\<open>paths\<close> is an array of strings or \<^verbatim>\<open>false\<close> (here \<open>None\<close>).
\<close>

record callerOpts =
  arg_compareContent :: jsval
  arg_shallow :: jsval
  arg_paths :: jsval

record diffOpts =
  compareContent :: bool
  shallow :: bool
  paths :: "path list option"
  filter_fn :: "(path \<Rightarrow> bool) option"

fun stringsOf :: "jsval list \<Rightarrow> string list" where
  "stringsOf [] = []"
| "stringsOf (JStr s # vs) = s # stringsOf vs"
| "stringsOf (v # vs) = stringsOf vs"

definition massageDiffOpts :: "callerOpts \<Rightarrow> diffOpts" where
  "massageDiffOpts opts =
     \<lparr>compareContent = (case arg_compareContent opts of JBool b \<Rightarrow> b | _ \<Rightarrow> True),
      shallow = (case arg_shallow opts of JBool b \<Rightarrow> b | _ \<Rightarrow> True),
      paths = (case arg_paths opts of JArr vs \<Rightarrow> Some (stringsOf vs) | _ \<Rightarrow> None),
      filter_fn = None\<rparr>"

text \<open>
  \<^verbatim>\<open>if (opts.paths) ... else ...\<close>: an array, also the empty one, is truthy;
  \<^verbatim>\<open>false\<close> is not.
\<close>

definition buildFilter :: "(string \<Rightarrow> path \<Rightarrow> bool) \<Rightarrow> tree \<Rightarrow> diffOpts \<Rightarrow> path \<Rightarrow> bool" where
  "buildFilter globMatch scopedFS opts =
     (case paths opts of
        Some targetPaths \<Rightarrow> makeDiffFilterByPaths targetPaths
      | None \<Rightarrow> (\<lambda>filepath. anymatch globMatch (readDatIgnore scopedFS) filepath))"

section \<open>Diff engine and apply engine\<close>

datatype change = Add | Remove | Modify

record diffEntry =
  entry_path :: path
  entry_change :: change
  isDirectory :: bool

text \<open>The strict ancestor directories of a path: its non-empty prefixes that end just
  before a separator.\<close>

fun prefixesBeforeSep :: "path \<Rightarrow> path \<Rightarrow> path list" where
  "prefixesBeforeSep seen [] = []"
| "prefixesBeforeSep seen (c # cs) =
     (if c = path_sep \<and> seen \<noteq> [] then [seen] else []) @ prefixesBeforeSep (seen @ [c]) cs"

definition ancestors :: "path \<Rightarrow> path list" where
  "ancestors p = prefixesBeforeSep [] p"

definition present :: "tree \<Rightarrow> path \<Rightarrow> bool" where
  "present t p = (map_of t p \<noteq> None)"

definition onlyIn :: "tree \<Rightarrow> tree \<Rightarrow> path \<Rightarrow> bool" where
  "onlyIn a b p = (present a p \<and> \<not> present b p)"

subsection \<open>The diff engine\<close>

text \<open>
  The module calls \<^verbatim>\<open>dft.diff\<close>, \<^verbatim>\<open>dft.applyRight\<close> and \<^verbatim>\<open>dft.applyLeft\<close> of the
  \<^verbatim>\<open>diff-file-tree\<close> package, which is not part of the sources. The engines are
  modelled from sections 4.1, 4.2 and 4.4 of the specification.
\<close>

text \<open>Modelled from the spec: the enumeration of the diff engine (section 4.2, the path
  sets of both trees are enumerated). The order is the source's paths, then the paths
  only the destination has.\<close>

definition candidates :: "tree \<Rightarrow> tree \<Rightarrow> path list" where
  "candidates src dst = remdups (map fst src @ map fst dst)"

text \<open>Modelled from the spec: the filter of the diff engine (section 4.2, the filter is
  applied to every candidate path before it is considered, and excluded paths are
  skipped entirely, including their descendants; section 4.1, a path is excluded if it
  matches an ignore pattern, that is if the filter answers true).\<close>

definition skippedByFilter :: "(path \<Rightarrow> bool) option \<Rightarrow> path \<Rightarrow> bool" where
  "skippedByFilter flt p =
     (case flt of None \<Rightarrow> False | Some f \<Rightarrow> f p \<or> (\<exists>q \<in> set (ancestors p). f q))"

text \<open>Modelled from the spec: the shallow mode of the diff engine (section 4.2, a
  directory present on one side only is a single entry when \<^verbatim>\<open>shallow\<close> is true, and
  its descendants get no entry).\<close>

definition suppressedByShallow :: "bool \<Rightarrow> tree \<Rightarrow> tree \<Rightarrow> path \<Rightarrow> bool" where
  "suppressedByShallow sh src dst p =
     (sh \<and> (\<exists>q \<in> set (ancestors p). onlyIn src dst q \<or> onlyIn dst src q))"

text \<open>Modelled from the spec: the change kind of one path (section 4.2, a path present
  only in the source is Add, only in the destination Remove, in both Modify if
  \<^verbatim>\<open>compareContent\<close> is true and the contents differ, otherwise skipped).\<close>

definition classify :: "bool \<Rightarrow> tree \<Rightarrow> tree \<Rightarrow> path \<Rightarrow> diffEntry option" where
  "classify cmp src dst p =
     (case (map_of src p, map_of dst p) of
        (Some n, None) \<Rightarrow> Some \<lparr>entry_path = p, entry_change = Add, isDirectory = (n = Dir)\<rparr>
      | (None, Some n) \<Rightarrow> Some \<lparr>entry_path = p, entry_change = Remove, isDirectory = (n = Dir)\<rparr>
      | (Some a, Some b) \<Rightarrow>
          (if cmp \<and> a \<noteq> b
           then Some \<lparr>entry_path = p, entry_change = Modify, isDirectory = (a = Dir)\<rparr>
           else None)
      | (None, None) \<Rightarrow> None)"

text \<open>Modelled from the spec: \<^verbatim>\<open>dft.diff(source, dest, opts)\<close> of the \<^verbatim>\<open>diff-file-tree\<close>
  package (section 4.2). Options that are not given default to \<^verbatim>\<open>shallow\<close>,
  \<^verbatim>\<open>compareContent\<close> and no filter.\<close>

definition dft_diff :: "tree \<Rightarrow> tree \<Rightarrow> diffOpts option \<Rightarrow> diffEntry list" where
  "dft_diff src dst opts =
     (let sh = (case opts of None \<Rightarrow> True | Some given \<Rightarrow> shallow given);
          cmp = (case opts of None \<Rightarrow> True | Some given \<Rightarrow> compareContent given);
          flt = (case opts of None \<Rightarrow> None | Some given \<Rightarrow> filter_fn given)
      in List.map_filter
           (\<lambda>p. if skippedByFilter flt p \<or> suppressedByShallow sh src dst p then None
                else classify cmp src dst p)
           (candidates src dst))"

subsection \<open>The apply engine\<close>

text \<open>The errors of the module (\<^verbatim>\<open>beaker-error-constants\<close>, a plain \<^verbatim>\<open>Error\<close>), the
  timeout of the acquisition and the failure of one entry of an apply, which names the
  path.\<close>

datatype error =
    Error string
  | ArchiveNotWritableError string
  | InvalidEncodingError string
  | SourceTooLargeError
  | TimeoutError
  | IOError path

text \<open>Modelled from the spec: the parent directories an Add or Modify creates
  implicitly (section 4.4); a path that is present is left as it is.\<close>

definition mkParents :: "path \<Rightarrow> tree \<Rightarrow> tree" where
  "mkParents p t = foldl (\<lambda>acc q. if present acc q then acc else acc @ [(q, Dir)]) t (ancestors p)"

text \<open>Modelled from the spec: the copy of one path from a source to a destination
  (section 4.4, Add and Modify copy the full content of the path, a directory is
  created structurally); the copy fails when the source does not have the path.\<close>

definition copyPath :: "tree \<Rightarrow> tree \<Rightarrow> path \<Rightarrow> error + tree" where
  "copyPath src dst p =
     (case map_of src p of
        None \<Rightarrow> Inl (IOError p)
      | Some n \<Rightarrow> Inr (AList.update p n (mkParents p dst)))"

text \<open>Modelled from the spec: Remove deletes the path from the destination
  (section 4.4), a directory with what lies below it.\<close>

definition removePath :: "tree \<Rightarrow> path \<Rightarrow> tree" where
  "removePath dst p = filter (\<lambda>(q, n). q \<noteq> p \<and> p \<notin> set (ancestors q)) dst"

text \<open>Modelled from the spec: one entry applied left to right (section 4.4, the source
  wins): the left tree is the source of the copies, the right tree is changed.\<close>

definition applyEntryRight :: "tree \<Rightarrow> tree \<Rightarrow> diffEntry \<Rightarrow> error + tree" where
  "applyEntryRight left right d =
     (case entry_change d of
        Add \<Rightarrow> copyPath left right (entry_path d)
      | Modify \<Rightarrow> copyPath left right (entry_path d)
      | Remove \<Rightarrow> Inr (removePath right (entry_path d)))"

text \<open>Modelled from the spec: one entry applied right to left (section 4.4, the
  destination of the diff is the source of truth): the left tree is changed, an entry
  only it has is removed from it and an entry only the right tree has is copied into
  it.\<close>

definition applyEntryLeft :: "tree \<Rightarrow> tree \<Rightarrow> diffEntry \<Rightarrow> error + tree" where
  "applyEntryLeft right left d =
     (case entry_change d of
        Add \<Rightarrow> Inr (removePath left (entry_path d))
      | Modify \<Rightarrow> copyPath right left (entry_path d)
      | Remove \<Rightarrow> copyPath right left (entry_path d))"

text \<open>Modelled from the spec: the entries are applied one by one in the given order
  (section 4.4); a failing entry stops the run, the entries before it stay applied and
  the failure is returned with the tree as it stands.\<close>

fun applyEntries :: "(tree \<Rightarrow> diffEntry \<Rightarrow> error + tree) \<Rightarrow> tree \<Rightarrow> diffEntry list
    \<Rightarrow> error option \<times> tree" where
  "applyEntries step t [] = (None, t)"
| "applyEntries step t (d # ds) =
     (case step t d of
        Inl err \<Rightarrow> (Some err, t)
      | Inr t' \<Rightarrow> applyEntries step t' ds)"

text \<open>Modelled from the spec: \<^verbatim>\<open>dft.applyRight(left, right, changes)\<close> of the
  \<^verbatim>\<open>diff-file-tree\<close> package (section 4.4); the result is the failure, if any, and the
  right tree.\<close>

definition dft_applyRight :: "tree \<Rightarrow> tree \<Rightarrow> diffEntry list \<Rightarrow> error option \<times> tree" where
  "dft_applyRight left right changes = applyEntries (applyEntryRight left) right changes"

text \<open>Modelled from the spec: \<^verbatim>\<open>dft.applyLeft(left, right, changes)\<close> of the
  \<^verbatim>\<open>diff-file-tree\<close> package (section 4.4); the result is the failure, if any, and the
  left tree.\<close>

definition dft_applyLeft :: "tree \<Rightarrow> tree \<Rightarrow> diffEntry list \<Rightarrow> error option \<times> tree" where
  "dft_applyLeft left right changes = applyEntries (applyEntryLeft right) left changes"

section \<open>Collaborators\<close>

text \<open>
  What the module imports and the sources do not contain is a field of the environment:
  the two classifiers of \<^verbatim>\<open>lib/mime\<close> (\<^verbatim>\<open>isFileNameBinary\<close> answers true, false or
  undefined, here \<open>None\<close>; \<^verbatim>\<open>isFileContentBinary\<close> is given the file's bytes), the glob
  matcher, the test of \<^verbatim>\<open>WORKSPACE_VALID_NAME_REGEX\<close>, the workspace table, the archive
  registry (\<^verbatim>\<open>meta.isOwner\<close>, \<^verbatim>\<open>userSettings.isSaved\<close>) and, for every archive, the time
  in milliseconds after which \<^verbatim>\<open>getOrLoadArchive\<close> resolves (\<open>None\<close>: never).
\<close>

record workspace =
  localFilesPath :: string
  publishTargetUrl :: string

record env =
  isFileNameBinary :: "path \<Rightarrow> bool option"
  isFileContentBinary :: "string \<Rightarrow> bool"
  globMatch :: "string \<Rightarrow> path \<Rightarrow> bool"
  validName :: "string \<Rightarrow> bool"
  workspacesDb_get :: "jsval \<Rightarrow> string \<Rightarrow> workspace option"
  isOwner :: "string \<Rightarrow> bool"
  isSaved :: "string \<Rightarrow> bool"
  loadTime :: "string \<Rightarrow> nat option"

text \<open>The two trees of every workspace: the scoped file systems by local path, the
  archives by url.\<close>

record world =
  scopedFSes :: "string \<Rightarrow> tree"
  archives :: "string \<Rightarrow> tree"

definition MAX_DIFF_SIZE :: nat where
  "MAX_DIFF_SIZE = 100000"

text \<open>The value of \<^verbatim>\<open>diff.diffLines(oldFile, newFile)\<close>, kept as its two arguments.\<close>

datatype lineDiff = DiffLines string string

text \<open>An operation is an \<^verbatim>\<open>async\<close> function: the first \<^verbatim>\<open>throw\<close> or rejected \<^verbatim>\<open>await\<close> ends
  it with that error, and the statements after it do not run.\<close>

definition bindE :: "error + 'a \<Rightarrow> ('a \<Rightarrow> error + 'b) \<Rightarrow> error + 'b" where
  "bindE r f = (case r of Inl e \<Rightarrow> Inl e | Inr x \<Rightarrow> f x)"

subsection \<open>Precondition checks\<close>

text \<open>\<^verbatim>\<open>assertValidProfileId\<close>, \<^verbatim>\<open>assertValidName\<close>, \<^verbatim>\<open>assertDatIsSavedAndOwned\<close> (the
  lookups of meta and user settings answer \<^verbatim>\<open>isOwner\<close> and \<^verbatim>\<open>isSaved\<close>) and
  \<^verbatim>\<open>validateWorkspaceRecord\<close>, each with the error it throws.\<close>

definition assertValidProfileId :: "jsval \<Rightarrow> error + unit" where
  "assertValidProfileId profileId =
     (case profileId of
        JNum n \<Rightarrow> Inr ()
      | _ \<Rightarrow> Inl (Error ''Must provide a valid profile id''))"

definition assertValidName :: "env \<Rightarrow> string \<Rightarrow> error + unit" where
  "assertValidName e name =
     (if \<not> validName e name then Inl (Error (''Invalid workspace name ('' @ name @ '')''))
      else Inr ())"

definition assertDatIsSavedAndOwned :: "env \<Rightarrow> string \<Rightarrow> error + unit" where
  "assertDatIsSavedAndOwned e url =
     (if \<not> isOwner e url then Inl (ArchiveNotWritableError ''You can't edit a dat you don't own.'')
      else if \<not> isSaved e url then Inl (ArchiveNotWritableError ''The workspace's dat has been deleted.'')
      else Inr ())"

text \<open>An unset field of the workspace record is the empty string: both are falsy.\<close>

definition validateWorkspaceRecord :: "env \<Rightarrow> string \<Rightarrow> workspace option \<Rightarrow> error + workspace" where
  "validateWorkspaceRecord e name ws =
     (case ws of
        None \<Rightarrow> Inl (Error (''No workspace found at '' @ name))
      | Some r \<Rightarrow>
          if localFilesPath r = [] then Inl (Error (''No files path set for '' @ name))
          else if publishTargetUrl r = [] then Inl (Error (''No target site set for '' @ name))
          else bindE (assertDatIsSavedAndOwned e (publishTargetUrl r)) (\<lambda>u. Inr r))"

subsection \<open>Acquisition of the two trees\<close>

text \<open>
  Modelled from the spec: \<^verbatim>\<open>timer\<close> of \<^verbatim>\<open>lib/time\<close>, which the sources do not contain.
  Section 5: acquisition of the archive is wrapped in a fixed timeout; if the archive is
  not loaded within the window the operation fails with a Timeout error.
\<close>

definition timer :: "nat \<Rightarrow> nat option \<Rightarrow> error + unit" where
  "timer ms completesAfter =
     (case completesAfter of
        None \<Rightarrow> Inl TimeoutError
      | Some t \<Rightarrow> if t \<le> ms then Inr () else Inl TimeoutError)"

text \<open>The block every operation runs after the record is validated:
  \<^verbatim>\<open>await timer(3e3, async (checkin) => { scopedFS = ...; archive = await ... })\<close>.\<close>

definition loadTrees :: "env \<Rightarrow> world \<Rightarrow> workspace \<Rightarrow> error + (tree \<times> tree)" where
  "loadTrees e w ws =
     bindE (timer 3000 (loadTime e (publishTargetUrl ws)))
       (\<lambda>u. Inr (scopedFSes w (localFilesPath ws), archives w (publishTargetUrl ws)))"

text \<open>The two steps every operation takes under the comments \<^verbatim>\<open>fetch workspace\<close> and
  \<^verbatim>\<open>get the scoped fs and archive\<close>: the record is looked up and validated, then the two
  trees are acquired.\<close>

definition fetchWorkspace :: "env \<Rightarrow> world \<Rightarrow> jsval \<Rightarrow> string \<Rightarrow> error + (workspace \<times> tree \<times> tree)" where
  "fetchWorkspace e w profileId name =
     bindE (validateWorkspaceRecord e name (workspacesDb_get e profileId name))
       (\<lambda>ws. bindE (loadTrees e w ws) (\<lambda>(scopedFS, archive). Inr (ws, scopedFS, archive)))"

text \<open>The opening of \<^verbatim>\<open>listChangedFiles\<close>, \<^verbatim>\<open>publish\<close> and \<^verbatim>\<open>revert\<close>: both
  assertions, the record, the trees.\<close>

definition openWorkspace :: "env \<Rightarrow> world \<Rightarrow> jsval \<Rightarrow> string \<Rightarrow> error + (workspace \<times> tree \<times> tree)" where
  "openWorkspace e w profileId name =
     bindE (assertValidProfileId profileId) (\<lambda>u.
     bindE (assertValidName e name) (\<lambda>u. fetchWorkspace e w profileId name))"

section \<open>The operations\<close>

subsection \<open>\<^verbatim>\<open>setupFolder\<close>\<close>

text \<open>\<^verbatim>\<open>dft.diff({fs: archive}, {fs: scopedFS})\<close> without options, then
  \<^verbatim>\<open>diff.filter(d => d.change === 'add')\<close>; the entries that remain are applied to the
  local tree with \<^verbatim>\<open>dft.applyRight\<close>, and the operation returns \<^verbatim>\<open>true\<close>. Only the profile id
  is asserted, not the name.\<close>

definition setupFolderChanges :: "tree \<Rightarrow> tree \<Rightarrow> diffEntry list" where
  "setupFolderChanges archive scopedFS =
     filter (\<lambda>d. entry_change d = Add) (dft_diff archive scopedFS None)"

definition setupFolder :: "env \<Rightarrow> world \<Rightarrow> jsval \<Rightarrow> string \<Rightarrow> (error + bool) \<times> world" where
  "setupFolder e w profileId name =
     (case bindE (assertValidProfileId profileId) (\<lambda>u. fetchWorkspace e w profileId name) of
        Inl err \<Rightarrow> (Inl err, w)
      | Inr (ws, scopedFS, archive) \<Rightarrow>
          (case dft_applyRight archive scopedFS (setupFolderChanges archive scopedFS) of
             (failure, scopedFS') \<Rightarrow>
               (case failure of Some err \<Rightarrow> Inl err | None \<Rightarrow> Inr True,
                w\<lparr>scopedFSes := (scopedFSes w)(localFilesPath ws := scopedFS')\<rparr>)))"

subsection \<open>\<^verbatim>\<open>listChangedFiles\<close>\<close>

text \<open>The massaged options with the filter stored in them (\<^verbatim>\<open>opts.filter = ...\<close>), as they
  go to \<^verbatim>\<open>dft.diff({fs: scopedFS}, {fs: archive}, opts)\<close>.\<close>

definition listDiffOpts :: "env \<Rightarrow> tree \<Rightarrow> callerOpts \<Rightarrow> diffOpts" where
  "listDiffOpts e scopedFS rawOpts =
     (let opts = massageDiffOpts rawOpts
      in opts\<lparr>filter_fn := Some (buildFilter (globMatch e) scopedFS opts)\<rparr>)"

definition listChangedFiles :: "env \<Rightarrow> world \<Rightarrow> jsval \<Rightarrow> string \<Rightarrow> callerOpts
    \<Rightarrow> error + diffEntry list" where
  "listChangedFiles e w profileId name rawOpts =
     bindE (openWorkspace e w profileId name) (\<lambda>(ws, scopedFS, archive).
       Inr (dft_diff scopedFS archive (Some (listDiffOpts e scopedFS rawOpts))))"

subsection \<open>\<^verbatim>\<open>diff\<close> of one file\<close>

text \<open>\<^verbatim>\<open>isFileContentBinary(fs, filepath)\<close> sniffs the bytes of the file at the path; the
  operation calls it only after \<^verbatim>\<open>stat\<close> has found a file there.\<close>

definition fileContentBinary :: "env \<Rightarrow> tree \<Rightarrow> path \<Rightarrow> bool" where
  "fileContentBinary e fs filepath =
     (case fs_readFile fs filepath of Inl err \<Rightarrow> False | Inr data \<Rightarrow> isFileContentBinary e data)"

text \<open>The two guards the operation runs on each side, the local tree first:
  the content sniff unless the name says text, then the size ceiling.\<close>

definition guardSide :: "env \<Rightarrow> bool option \<Rightarrow> tree \<Rightarrow> path \<Rightarrow> error + unit" where
  "guardSide e isBinary fs filepath =
     (case stat fs filepath of
        None \<Rightarrow> Inr ()
      | Some st \<Rightarrow>
          if isBinary \<noteq> Some False \<and> isFile st \<and> fileContentBinary e fs filepath
          then Inl (InvalidEncodingError ''Cannot diff a binary file'')
          else if isFile st \<and> stat_size st > MAX_DIFF_SIZE then Inl SourceTooLargeError
          else Inr ())"

text \<open>The operation: both assertions, the path normalized, the name check, the
  workspace and its trees, the guards on the local tree and then on the archive, and
  \<^verbatim>\<open>diff.diffLines(oldFile, newFile)\<close> of what \<^verbatim>\<open>readFile\<close> gives for the archive and for
  the local tree.\<close>

definition diff :: "env \<Rightarrow> world \<Rightarrow> jsval \<Rightarrow> string \<Rightarrow> path \<Rightarrow> error + lineDiff" where
  "diff e w profileId name filepath0 =
     bindE (assertValidProfileId profileId) (\<lambda>u.
     bindE (assertValidName e name) (\<lambda>u.
       let filepath = path_normalize filepath0;
           isBinary = isFileNameBinary e filepath
       in if isBinary = Some True then Inl (InvalidEncodingError ''Cannot diff a binary file'')
          else
            bindE (fetchWorkspace e w profileId name) (\<lambda>(ws, scopedFS, archive).
            bindE (guardSide e isBinary scopedFS filepath) (\<lambda>u.
            bindE (guardSide e isBinary archive filepath) (\<lambda>u.
              Inr (DiffLines (readFile archive filepath) (readFile scopedFS filepath)))))))"

subsection \<open>\<^verbatim>\<open>publish\<close> and \<^verbatim>\<open>revert\<close>\<close>

text \<open>The options object both operations hand to the diff engine: the massaged
  options, the filter stored in them, then \<^verbatim>\<open>opts.shallow = false\<close>.\<close>

definition applyDiffOpts :: "env \<Rightarrow> tree \<Rightarrow> callerOpts \<Rightarrow> diffOpts" where
  "applyDiffOpts e scopedFS rawOpts =
     (let opts = massageDiffOpts rawOpts;
          opts = opts\<lparr>filter_fn := Some (buildFilter (globMatch e) scopedFS opts)\<rparr>
      in opts\<lparr>shallow := False\<rparr>)"

text \<open>\<^verbatim>\<open>publish\<close> applies the diff to the archive with \<^verbatim>\<open>dft.applyRight\<close>, \<^verbatim>\<open>revert\<close> applies
  the same diff to the local tree with \<^verbatim>\<open>dft.applyLeft\<close>; a failure of the apply is the
  error of the operation, with the tree as the apply left it.\<close>

definition publish :: "env \<Rightarrow> world \<Rightarrow> jsval \<Rightarrow> string \<Rightarrow> callerOpts \<Rightarrow> (error + unit) \<times> world" where
  "publish e w profileId name rawOpts =
     (case openWorkspace e w profileId name of
        Inl err \<Rightarrow> (Inl err, w)
      | Inr (ws, scopedFS, archive) \<Rightarrow>
          (case dft_applyRight scopedFS archive
                  (dft_diff scopedFS archive (Some (applyDiffOpts e scopedFS rawOpts))) of
             (failure, archive') \<Rightarrow>
               (case failure of Some err \<Rightarrow> Inl err | None \<Rightarrow> Inr (),
                w\<lparr>archives := (archives w)(publishTargetUrl ws := archive')\<rparr>)))"

definition revert :: "env \<Rightarrow> world \<Rightarrow> jsval \<Rightarrow> string \<Rightarrow> callerOpts \<Rightarrow> (error + unit) \<times> world" where
  "revert e w profileId name rawOpts =
     (case openWorkspace e w profileId name of
        Inl err \<Rightarrow> (Inl err, w)
      | Inr (ws, scopedFS, archive) \<Rightarrow>
          (case dft_applyLeft scopedFS archive
                  (dft_diff scopedFS archive (Some (applyDiffOpts e scopedFS rawOpts))) of
             (failure, scopedFS') \<Rightarrow>
               (case failure of Some err \<Rightarrow> Inl err | None \<Rightarrow> Inr (),
                w\<lparr>scopedFSes := (scopedFSes w)(localFilesPath ws := scopedFS')\<rparr>)))"

section \<open>A sample workspace\<close>

text \<open>
  One workspace, \<^verbatim>\<open>site\<close>, bound to a local folder and an archive the caller owns; names
  ending in \<^verbatim>\<open>.png\<close> are binary and names ending in \<^verbatim>\<open>.txt\<close> are text for the name
  classifier, a NUL byte makes content binary, and a rule matches the path equal to it.
\<close>

definition sampleNameBinary :: "path \<Rightarrow> bool option" where
  "sampleNameBinary p =
     (if endsWith p ''.png'' then Some True
      else if endsWith p ''.txt'' then Some False
      else None)"

definition sampleEnv :: env where
  "sampleEnv =
     \<lparr>isFileNameBinary = sampleNameBinary,
      isFileContentBinary = (\<lambda>data. CHR 0x00 \<in> set data),
      globMatch = (\<lambda>rule p. rule = p),
      validName = (\<lambda>name. name \<noteq> []),
      workspacesDb_get = (\<lambda>profileId name.
         if name = ''site''
         then Some \<lparr>localFilesPath = ''/home/bob/site'', publishTargetUrl = ''dat://site''\<rparr>
         else None),
      isOwner = (\<lambda>url. True),
      isSaved = (\<lambda>url. True),
      loadTime = (\<lambda>url. Some 20)\<rparr>"

definition sampleWorld :: "tree \<Rightarrow> tree \<Rightarrow> world" where
  "sampleWorld scopedFS archive =
     \<lparr>scopedFSes = (\<lambda>localPath. if localPath = ''/home/bob/site'' then scopedFS else []),
      archives = (\<lambda>url. if url = ''dat://site'' then archive else [])\<rparr>"

definition noOpts :: callerOpts where
  "noOpts = \<lparr>arg_compareContent = JUndefined, arg_shallow = JUndefined, arg_paths = JUndefined\<rparr>"

text \<open>A text of a given length, for the size ceiling.\<close>

definition textOfLength :: "nat \<Rightarrow> string" where
  "textOfLength n = replicate n CHR ''a''"

section \<open>Properties of the path-scope filter\<close>

lemma take_Suc_eq_snoc:
  "take (Suc (length f)) t = f @ [c] \<longleftrightarrow> take (length f) t = f \<and> length f < length t \<and> t ! length f = c"
proof (cases "length f < length t")
  case True
  then have "take (Suc (length f)) t = take (length f) t @ [t ! length f]"
    by (rule take_Suc_conv_app_nth)
  moreover have "length (take (length f) t) = length f"
    using True by simp
  ultimately show ?thesis
    using True by (metis append_eq_append_conv list.inject)
next
  case False
  then have "length (take (Suc (length f)) t) \<le> length f" by simp
  moreover have "length (f @ [c]) = Suc (length f)" by simp
  ultimately have "take (Suc (length f)) t \<noteq> f @ [c]"
    by auto
  with False show ?thesis by simp
qed

lemma isParentFolder_iff: "isParentFolder t f = startsWith t (f @ [path_sep])"
  unfolding isParentFolder_def startsWith_def charAt_def path_sep_def
  using take_Suc_eq_snoc [of f t "CHR ''/''"]
  by (cases "length f < length t") simp_all

lemma endsWith_sep_butlast:
  "endsWith t [path_sep] \<Longrightarrow> startsWith t (butlast t @ [path_sep])"
  by (cases t rule: rev_cases) (auto simp: endsWith_def startsWith_def)

lemma startsWith_refl: "startsWith s s"
  by (simp add: startsWith_def)

lemma startsWith_same_length: "startsWith f t \<Longrightarrow> length f \<le> length t \<Longrightarrow> f = t"
  by (simp add: startsWith_def)

lemma inScope_Cons: "inScope (t # ts) f = (inScope [t] f \<or> inScope ts f)"
  by (auto simp: inScope_def equalsTarget_def belowDirectoryTarget_def ancestorOfTarget_def)

lemma inScope_single: "inScope [t] f \<longleftrightarrow>
      f = t \<or> (endsWith t [path_sep] \<and> startsWith f t \<and> length t < length f) \<or> isParentFolder t f"
  by (simp add: inScope_def equalsTarget_def belowDirectoryTarget_def ancestorOfTarget_def
        isParentFolder_iff)

lemma inScope_Nil: "\<not> inScope [] f"
  by (simp add: inScope_def equalsTarget_def belowDirectoryTarget_def ancestorOfTarget_def)

lemma pathsFilterLoop_iff: "pathsFilterLoop ts f = (\<not> inScope ts f)"
proof (induction ts)
  case Nil
  show ?case
    by (simp add: inScope_Nil)
next
  case (Cons t ts)
  show ?case
  proof (cases "endsWith t [path_sep]")
    case True
    have a: "f = butlast t \<Longrightarrow> isParentFolder t f"
      using endsWith_sep_butlast [OF True] by (simp add: isParentFolder_iff)
    have b: "startsWith f t \<Longrightarrow> f \<noteq> t \<Longrightarrow> length t < length f"
      using startsWith_same_length [of f t] by (cases "length t < length f") auto
    have "inScope [t] f \<longleftrightarrow> f = butlast t \<or> startsWith f t \<or> isParentFolder t f"
      using True a b startsWith_refl [of t] unfolding inScope_single by blast
    then show ?thesis
      using True Cons.IH by (simp add: inScope_Cons [of t ts])
  next
    case False
    then have "inScope [t] f \<longleftrightarrow> f = t \<or> isParentFolder t f"
      unfolding inScope_single by blast
    then show ?thesis
      using False Cons.IH by (simp add: inScope_Cons [of t ts])
  qed
qed

text \<open>
  C3. For a non-empty allow-list of normalized target paths the path-scope filter returns
  false exactly on the paths in scope (equal to a target, strictly below a target that
  ends with the separator, or a strict ancestor directory of a target) and true on all
  others; a single target without trailing separator is matched by equality (and by its
  ancestors) only, never by a longer path that has it as a prefix. A directory is written
  without its trailing separator here, as the diff engine writes it; the path is an
  ancestor directory of the target when the path followed by the separator is a prefix
  of the target.
\<close>

theorem makeDiffFilterByPaths_scope:
  assumes "targets \<noteq> []" and "\<forall>t \<in> set targets. path_normalize t = t"
  shows "makeDiffFilterByPaths targets filepath = (\<not> inScope targets filepath)
    \<and> (\<forall>t. targets = [t] \<and> \<not> endsWith t [path_sep] \<and> startsWith filepath t \<and> filepath \<noteq> t
          \<longrightarrow> makeDiffFilterByPaths targets filepath)"
proof -
  have norm: "map path_normalize targets = targets"
    using assms(2) by (simp add: map_idI)
  have main: "makeDiffFilterByPaths targets filepath = (\<not> inScope targets filepath)"
    by (simp add: makeDiffFilterByPaths_def norm pathsFilterLoop_iff)
  have "makeDiffFilterByPaths targets filepath"
    if h: "targets = [t]" "\<not> endsWith t [path_sep]" "startsWith filepath t" "filepath \<noteq> t" for t
  proof -
    have "length t < length filepath"
      using h(3,4) startsWith_same_length [of filepath t]
      by (cases "length t < length filepath") auto
    then have "length (take (length filepath) t) < length filepath"
      by simp
    then have "take (length filepath) t \<noteq> filepath"
      by auto
    then have "\<not> isParentFolder t filepath"
      by (simp add: isParentFolder_def startsWith_def)
    then have "\<not> inScope [t] filepath"
      using h(2,4) unfolding inScope_single by blast
    then show ?thesis
      using h(1) main by simp
  qed
  with main show ?thesis by blast
qed


theorem makeDiffFilterByPaths_scope_witness:
  "makeDiffFilterByPaths [''/docs/'', ''/src/a.js''] ''/docs/guide/intro.md'' = False
   \<and> makeDiffFilterByPaths [''/docs/'', ''/src/a.js''] ''/src'' = False
   \<and> makeDiffFilterByPaths [''/docs/'', ''/src/a.js''] ''/lib/b.js'' = True
   \<and> makeDiffFilterByPaths [''/src/a.js''] ''/src/a.js.map'' = True"
proof -
  have n: "\<forall>t \<in> set [''/docs/'', ''/src/a.js'']. path_normalize t = t"
    by (simp add: path_normalize_def path_sep_def)
  have n1: "\<forall>t \<in> set [''/src/a.js'']. path_normalize t = t"
    by (simp add: path_normalize_def path_sep_def)
  have s: "inScope [''/docs/'', ''/src/a.js''] ''/docs/guide/intro.md''"
      "inScope [''/docs/'', ''/src/a.js''] ''/src''"
      "\<not> inScope [''/docs/'', ''/src/a.js''] ''/lib/b.js''"
    by (simp_all add: inScope_def equalsTarget_def belowDirectoryTarget_def ancestorOfTarget_def
        startsWith_def endsWith_def path_sep_def)
  have e: "\<not> endsWith ''/src/a.js'' [path_sep]" "startsWith ''/src/a.js.map'' ''/src/a.js''"
    by (simp_all add: startsWith_def endsWith_def path_sep_def)
  have a: "makeDiffFilterByPaths [''/docs/'', ''/src/a.js''] f
      = (\<not> inScope [''/docs/'', ''/src/a.js''] f)" for f
    using makeDiffFilterByPaths_scope [OF _ n, of f] by simp
  have b: "makeDiffFilterByPaths [''/src/a.js''] ''/src/a.js.map''"
    using makeDiffFilterByPaths_scope [OF _ n1, of "''/src/a.js.map''"] e by blast
  show ?thesis
    using a s b by simp
qed

section \<open>Properties of the diff and apply engines\<close>

lemma classify_Some:
  "classify cmp src dst p = Some d \<Longrightarrow> entry_path d = p"
  by (auto simp: classify_def split: option.splits if_splits)

lemma classify_Add:
  "classify cmp src dst p = Some d \<Longrightarrow> entry_change d = Add \<Longrightarrow>
     map_of src p \<noteq> None \<and> map_of dst p = None"
  by (auto simp: classify_def split: option.splits if_splits)

lemma in_map_filter:
  "y \<in> set (List.map_filter f xs) \<longleftrightarrow> (\<exists>x \<in> set xs. f x = Some y)"
  by (induction xs) (auto split: option.splits)

lemma dft_diff_entry:
  assumes "d \<in> set (dft_diff src dst opts)"
  obtains p where "p \<in> set (candidates src dst)"
    and "\<not> skippedByFilter (case opts of None \<Rightarrow> None | Some given \<Rightarrow> filter_fn given) p"
    and "\<not> suppressedByShallow (case opts of None \<Rightarrow> True | Some given \<Rightarrow> shallow given) src dst p"
    and "classify (case opts of None \<Rightarrow> True | Some given \<Rightarrow> compareContent given) src dst p = Some d"
  using assms unfolding dft_diff_def Let_def in_map_filter
  by (auto split: if_splits)

lemma dft_diff_Add_absent:
  assumes "d \<in> set (dft_diff src dst opts)" and "entry_change d = Add"
  shows "map_of src (entry_path d) \<noteq> None \<and> map_of dst (entry_path d) = None"
proof -
  from assms(1) obtain p where
    "classify (case opts of None \<Rightarrow> True | Some given \<Rightarrow> compareContent given) src dst p = Some d"
    by (rule dft_diff_entry)
  then show ?thesis
    using classify_Add classify_Some assms(2) by blast
qed

lemma dft_diff_passes_filter:
  assumes "d \<in> set (dft_diff src dst (Some opts))" and "filter_fn opts = Some f"
  shows "\<not> f (entry_path d)"
proof -
  from assms(1) obtain p where
    s: "\<not> skippedByFilter (filter_fn opts) p"
    and c: "classify (compareContent opts) src dst p = Some d"
    by (rule dft_diff_entry) simp
  from c have "entry_path d = p" by (rule classify_Some)
  with s assms(2) show ?thesis
    by (simp add: skippedByFilter_def)
qed

lemma map_of_snoc_keeps:
  "map_of t x = Some v \<Longrightarrow> map_of (t @ [(q, n)]) x = Some v"
  by (simp add: map_add_Some_iff)

lemma mkParents_fold_keeps:
  "map_of t x = Some v \<Longrightarrow>
     map_of (foldl (\<lambda>acc q. if present acc q then acc else acc @ [(q, Dir)]) t qs) x = Some v"
proof (induction qs arbitrary: t)
  case Nil
  then show ?case by simp
next
  case (Cons q qs)
  show ?case
  proof (cases "present t q")
    case True
    then show ?thesis using Cons by simp
  next
    case False
    have "map_of (t @ [(q, Dir)]) x = Some v"
      using Cons.prems by (rule map_of_snoc_keeps)
    then show ?thesis
      using False Cons.IH [of "t @ [(q, Dir)]"] by simp
  qed
qed

lemma mkParents_keeps: "map_of t x = Some v \<Longrightarrow> map_of (mkParents p t) x = Some v"
  unfolding mkParents_def by (rule mkParents_fold_keeps)

lemma copyPath_keeps:
  assumes "copyPath src dst p = Inr t'" and "map_of dst x = Some v" and "x \<noteq> p"
  shows "map_of t' x = Some v"
proof -
  from assms(1) obtain n where t': "t' = AList.update p n (mkParents p dst)"
    by (auto simp: copyPath_def split: option.splits)
  show ?thesis
    using assms(3) mkParents_keeps [OF assms(2), of p]
    by (simp add: t' update_conv')
qed

lemma applyEntries_adds_keep:
  assumes "\<forall>d \<in> set ds. entry_change d = Add \<and> map_of t0 (entry_path d) = None"
    and "\<forall>x v. map_of t0 x = Some v \<longrightarrow> map_of t x = Some v"
    and "applyEntries (applyEntryRight src) t ds = (r, t')"
    and "map_of t0 x = Some v"
  shows "map_of t' x = Some v"
  using assms
proof (induction ds arbitrary: t)
  case Nil
  then show ?case by simp
next
  case (Cons d ds)
  show ?case
  proof (cases "applyEntryRight src t d")
    case (Inl err)
    with Cons.prems show ?thesis by simp
  next
    case (Inr t1)
    have add: "entry_change d = Add" and absent: "map_of t0 (entry_path d) = None"
      using Cons.prems(1) by simp_all
    from Inr add have cp: "copyPath src t (entry_path d) = Inr t1"
      by (simp add: applyEntryRight_def)
    have keep: "\<forall>y u. map_of t0 y = Some u \<longrightarrow> map_of t1 y = Some u"
    proof (intro allI impI)
      fix y u
      assume y: "map_of t0 y = Some u"
      then have "y \<noteq> entry_path d" using absent by auto
      moreover have "map_of t y = Some u" using Cons.prems(2) y by blast
      ultimately show "map_of t1 y = Some u"
        using copyPath_keeps [OF cp] by blast
    qed
    have rest: "applyEntries (applyEntryRight src) t1 ds = (r, t')"
      using Cons.prems(3) Inr by simp
    show ?thesis
      using Cons.IH [OF _ keep rest Cons.prems(4)] Cons.prems(1) by simp
  qed
qed

lemma setupFolderChanges_Add:
  "d \<in> set (setupFolderChanges archive scopedFS) \<Longrightarrow>
     entry_change d = Add \<and> map_of scopedFS (entry_path d) = None"
  unfolding setupFolderChanges_def using dft_diff_Add_absent [of d archive scopedFS None]
  by auto

lemma setupFolder_apply_keeps:
  assumes "dft_applyRight archive scopedFS (setupFolderChanges archive scopedFS) = (r, t')"
    and "map_of scopedFS x = Some v"
  shows "map_of t' x = Some v"
proof -
  have a: "\<forall>d \<in> set (setupFolderChanges archive scopedFS).
      entry_change d = Add \<and> map_of scopedFS (entry_path d) = None"
    using setupFolderChanges_Add by blast
  show ?thesis
    using applyEntries_adds_keep [OF a _ assms(1) [unfolded dft_applyRight_def] assms(2)]
    by simp
qed

lemma mkParents_fold_new:
  "map_of (foldl (\<lambda>acc q. if present acc q then acc else acc @ [(q, Dir)]) t qs) x = Some v \<Longrightarrow>
     map_of t x = None \<Longrightarrow> v = Dir \<and> x \<in> set qs"
proof (induction qs arbitrary: t)
  case Nil
  then show ?case by simp
next
  case (Cons q qs)
  show ?case
  proof (cases "present t q")
    case True
    then show ?thesis using Cons by simp
  next
    case False
    show ?thesis
    proof (cases "x = q")
      case True
      have "map_of (t @ [(q, Dir)]) x = Some Dir"
        using True Cons.prems(2) by (simp add: map_add_def)
      then have "map_of (foldl (\<lambda>acc q. if present acc q then acc else acc @ [(q, Dir)])
          (t @ [(q, Dir)]) qs) x = Some Dir"
        by (rule mkParents_fold_keeps)
      then show ?thesis
        using Cons.prems(1) False True by simp
    next
      case neq: False
      have "map_of (t @ [(q, Dir)]) x = None"
        using neq Cons.prems(2) by (simp add: map_add_def)
      then show ?thesis
        using Cons.IH [of "t @ [(q, Dir)]"] Cons.prems(1) False by simp
    qed
  qed
qed

lemma copyPath_new:
  assumes "copyPath src dst p = Inr t'" and "map_of t' x = Some v"
  shows "map_of dst x = Some v \<or> (x = p \<and> map_of src p = Some v)
     \<or> (v = Dir \<and> x \<in> set (ancestors p))"
proof -
  from assms(1) obtain n where n: "map_of src p = Some n"
    and t': "t' = AList.update p n (mkParents p dst)"
    by (auto simp: copyPath_def split: option.splits)
  show ?thesis
  proof (cases "x = p")
    case True
    then show ?thesis using assms(2) n by (simp add: t' update_conv')
  next
    case False
    then have m: "map_of (mkParents p dst) x = Some v"
      using assms(2) by (simp add: t' update_conv')
    show ?thesis
    proof (cases "map_of dst x")
      case None
      then show ?thesis
        using m mkParents_fold_new [of dst "ancestors p" x v] by (simp add: mkParents_def)
    next
      case (Some u)
      then show ?thesis
        using m mkParents_keeps [of dst x u p] by simp
    qed
  qed
qed

lemma applyEntries_adds_new:
  assumes "\<forall>d \<in> set ds. entry_change d = Add"
    and "applyEntries (applyEntryRight src) t ds = (r, t')"
    and "map_of t' x = Some v"
  shows "map_of t x = Some v \<or> map_of src x = Some v
     \<or> (v = Dir \<and> (\<exists>d \<in> set ds. x \<in> set (ancestors (entry_path d))))"
  using assms
proof (induction ds arbitrary: t)
  case Nil
  then show ?case by simp
next
  case (Cons d ds)
  show ?case
  proof (cases "applyEntryRight src t d")
    case (Inl err)
    with Cons.prems show ?thesis by simp
  next
    case (Inr t1)
    have cp: "copyPath src t (entry_path d) = Inr t1"
      using Inr Cons.prems(1) by (simp add: applyEntryRight_def)
    have rest: "applyEntries (applyEntryRight src) t1 ds = (r, t')"
      using Cons.prems(2) Inr by simp
    have "map_of t1 x = Some v \<or> map_of src x = Some v
       \<or> (v = Dir \<and> (\<exists>d \<in> set ds. x \<in> set (ancestors (entry_path d))))"
      using Cons.IH [OF _ rest Cons.prems(3)] Cons.prems(1) by simp
    then show ?thesis
      using copyPath_new [OF cp, of x v] by auto
  qed
qed

lemma setupFolderChanges_from_archive:
  "d \<in> set (setupFolderChanges archive scopedFS) \<Longrightarrow> present archive (entry_path d)"
  unfolding setupFolderChanges_def present_def
  using dft_diff_Add_absent [of d archive scopedFS None] by auto

lemma setupFolder_apply_new:
  assumes "dft_applyRight archive scopedFS (setupFolderChanges archive scopedFS) = (r, t')"
    and "map_of t' x = Some v"
  shows "map_of scopedFS x = Some v \<or> map_of archive x = Some v
     \<or> (v = Dir \<and> (\<exists>q. present archive q \<and> x \<in> set (ancestors q)))"
proof -
  have a: "\<forall>d \<in> set (setupFolderChanges archive scopedFS). entry_change d = Add"
    using setupFolderChanges_Add by blast
  show ?thesis
    using applyEntries_adds_new [OF a assms(1) [unfolded dft_applyRight_def] assms(2)]
      setupFolderChanges_from_archive [of _ archive scopedFS]
    by blast
qed

lemma setupFolder_result:
  assumes "setupFolder e w profileId name = (r, w')"
  obtains (unchanged) "w' = w"
  | (applied) ws :: workspace and failure fs' where
      "workspacesDb_get e profileId name = Some ws"
      "dft_applyRight (archives w (publishTargetUrl ws)) (scopedFSes w (localFilesPath ws))
           (setupFolderChanges (archives w (publishTargetUrl ws)) (scopedFSes w (localFilesPath ws)))
         = (failure, fs')"
      "w' = w\<lparr>scopedFSes := (scopedFSes w)(localFilesPath ws := fs')\<rparr>"
proof (cases "bindE (assertValidProfileId profileId) (\<lambda>u. fetchWorkspace e w profileId name)")
  case (Inl err)
  then have "w' = w" using assms by (simp add: setupFolder_def)
  then show ?thesis by (rule unchanged)
next
  case (Inr opened)
  obtain ws fs ar where opened: "opened = (ws, fs, ar)"
    by (cases opened) auto
  obtain failure fs' where ap: "dft_applyRight ar fs (setupFolderChanges ar fs) = (failure, fs')"
    by (cases "dft_applyRight ar fs (setupFolderChanges ar fs)") auto
  have w': "w' = w\<lparr>scopedFSes := (scopedFSes w)(localFilesPath ws := fs')\<rparr>"
    using assms Inr opened ap by (simp add: setupFolder_def)
  have trees: "fs = scopedFSes w (localFilesPath ws)" "ar = archives w (publishTargetUrl ws)"
    and "validateWorkspaceRecord e name (workspacesDb_get e profileId name) = Inr ws"
    using Inr opened
    by (auto simp: bindE_def fetchWorkspace_def loadTrees_def split: sum.splits)
  then have rec: "workspacesDb_get e profileId name = Some ws"
    by (auto simp: validateWorkspaceRecord_def bindE_def split: option.splits if_splits sum.splits)
  show ?thesis
    using rec ap w' unfolding trees by (rule applied)
qed

text \<open>
  C1. \<^verbatim>\<open>setupFolder\<close> applies Add entries only: every entry of another kind is
  discarded before the apply. Whatever the outcome, the archives are as before and every
  path a local tree had keeps its node, so a file or directory that is local only is
  untouched and nothing local is deleted or overwritten; a node that is new is in the
  local tree of the workspace and is the archive's node at that path, or a directory
  created as the parent of a path of the archive.
\<close>

theorem setupFolder_add_only:
  "(\<forall>d \<in> set (setupFolderChanges archive scopedFS). entry_change d = Add)
   \<and> (setupFolder e w profileId name = (r, w') \<longrightarrow>
        archives w' = archives w
        \<and> (\<forall>localPath p n. map_of (scopedFSes w localPath) p = Some n
              \<longrightarrow> map_of (scopedFSes w' localPath) p = Some n)
        \<and> (\<forall>localPath p n. map_of (scopedFSes w' localPath) p = Some n
                \<and> map_of (scopedFSes w localPath) p = None
              \<longrightarrow> (\<exists>ws. workspacesDb_get e profileId name = Some ws
                      \<and> localPath = localFilesPath ws
                      \<and> (map_of (archives w (publishTargetUrl ws)) p = Some n
                         \<or> (n = Dir \<and> (\<exists>q. present (archives w (publishTargetUrl ws)) q
                                           \<and> p \<in> set (ancestors q)))))))"
proof (intro conjI impI)
  show "\<forall>d \<in> set (setupFolderChanges archive scopedFS). entry_change d = Add"
    using setupFolderChanges_Add by blast
next
  assume run: "setupFolder e w profileId name = (r, w')"
  from run show "archives w' = archives w"
    by (cases rule: setupFolder_result) simp_all
  from run show "\<forall>localPath p n. map_of (scopedFSes w localPath) p = Some n
          \<longrightarrow> map_of (scopedFSes w' localPath) p = Some n"
  proof (cases rule: setupFolder_result)
    case unchanged
    then show ?thesis by simp
  next
    case (applied ws failure fs')
    show ?thesis
      using setupFolder_apply_keeps [OF applied(2)] by (simp add: applied(3))
  qed
  from run show "\<forall>localPath p n. map_of (scopedFSes w' localPath) p = Some n
                \<and> map_of (scopedFSes w localPath) p = None
              \<longrightarrow> (\<exists>ws. workspacesDb_get e profileId name = Some ws
                      \<and> localPath = localFilesPath ws
                      \<and> (map_of (archives w (publishTargetUrl ws)) p = Some n
                         \<or> (n = Dir \<and> (\<exists>q. present (archives w (publishTargetUrl ws)) q
                                           \<and> p \<in> set (ancestors q)))))"
  proof (cases rule: setupFolder_result)
    case unchanged
    then show ?thesis by auto
  next
    case (applied ws failure fs')
    show ?thesis
    proof (intro allI impI)
      fix localPath p n
      assume h: "map_of (scopedFSes w' localPath) p = Some n \<and> map_of (scopedFSes w localPath) p = None"
      then have lp: "localPath = localFilesPath ws"
        by (cases "localPath = localFilesPath ws") (auto simp: applied(3))
      then have "map_of fs' p = Some n" "map_of (scopedFSes w (localFilesPath ws)) p = None"
        using h by (simp_all add: applied(3))
      then have "map_of (archives w (publishTargetUrl ws)) p = Some n
          \<or> (n = Dir \<and> (\<exists>q. present (archives w (publishTargetUrl ws)) q \<and> p \<in> set (ancestors q)))"
        using setupFolder_apply_new [OF applied(2), of p n] by auto
      with lp applied(1)
      show "\<exists>ws. workspacesDb_get e profileId name = Some ws
          \<and> localPath = localFilesPath ws
          \<and> (map_of (archives w (publishTargetUrl ws)) p = Some n
             \<or> (n = Dir \<and> (\<exists>q. present (archives w (publishTargetUrl ws)) q
                               \<and> p \<in> set (ancestors q))))"
        by blast
    qed
  qed
qed

lemmas op_defs = bindE_def assertValidProfileId_def assertValidName_def fetchWorkspace_def
  validateWorkspaceRecord_def assertDatIsSavedAndOwned_def loadTrees_def timer_def
  openWorkspace_def
lemmas sample_defs = sampleEnv_def sampleWorld_def sampleNameBinary_def noOpts_def
lemmas engine_defs = dft_diff_def candidates_def skippedByFilter_def suppressedByShallow_def
  ancestors_def classify_def onlyIn_def present_def dft_applyRight_def dft_applyLeft_def
  applyEntryRight_def applyEntryLeft_def copyPath_def removePath_def mkParents_def path_sep_def

lemma sample_setup:
  "setupFolder sampleEnv
      (sampleWorld [(''/notes.txt'', File ''mine'')] [(''/index.html'', File ''hello'')])
      (JNum 0) ''site''
   = (Inr True, sampleWorld [(''/notes.txt'', File ''mine''), (''/index.html'', File ''hello'')]
        [(''/index.html'', File ''hello'')])"
  by (simp add: setupFolder_def setupFolderChanges_def op_defs sample_defs engine_defs fun_eq_iff)

theorem setupFolder_add_only_witness:
  "map_of (scopedFSes (snd (setupFolder sampleEnv
      (sampleWorld [(''/notes.txt'', File ''mine'')] [(''/index.html'', File ''hello'')])
      (JNum 0) ''site'')) ''/home/bob/site'') ''/notes.txt'' = Some (File ''mine'')
   \<and> map_of (scopedFSes (snd (setupFolder sampleEnv
      (sampleWorld [(''/notes.txt'', File ''mine'')] [(''/index.html'', File ''hello'')])
      (JNum 0) ''site'')) ''/home/bob/site'') ''/index.html'' = Some (File ''hello'')"
proof -
  let ?w = "sampleWorld [(''/notes.txt'', File ''mine'')] [(''/index.html'', File ''hello'')]"
  have before: "map_of (scopedFSes ?w ''/home/bob/site'') ''/notes.txt'' = Some (File ''mine'')"
    by (simp add: sampleWorld_def)
  have "setupFolder sampleEnv ?w (JNum 0) ''site''
      = (fst (setupFolder sampleEnv ?w (JNum 0) ''site''), snd (setupFolder sampleEnv ?w (JNum 0) ''site''))"
    by simp
  then have kept: "map_of (scopedFSes (snd (setupFolder sampleEnv ?w (JNum 0) ''site'')) ''/home/bob/site'')
      ''/notes.txt'' = Some (File ''mine'')"
    using setupFolder_add_only [of "[]" "[]" sampleEnv ?w "JNum 0" "''site''"] before by blast
  have added: "map_of (scopedFSes (snd (setupFolder sampleEnv ?w (JNum 0) ''site'')) ''/home/bob/site'')
      ''/index.html'' = Some (File ''hello'')"
    by (simp add: sample_setup) (simp add: sampleWorld_def)
  from kept added show ?thesis by simp
qed

section \<open>Properties of the ignore rules\<close>

lemma normalize_fixed_rules:
  "path_normalize ''/.git'' = ''/.git''" "path_normalize ''/.dat'' = ''/.dat''"
  by (simp_all add: path_normalize_def path_sep_def)

lemma ignoreRulesOf_eq:
  "ignoreRulesOf raw =
     map (\<lambda>line. path_normalize (prefixRule line))
       (filter (\<lambda>line. line \<noteq> []) (splitOn (CHR 0x0A) raw))
     @ [''/.git'', ''/.dat'']"
  by (simp add: ignoreRulesOf_def normalize_fixed_rules)

lemma readFile_absent: "map_of fs p = None \<Longrightarrow> readFile fs p = []"
  by (simp add: readFile_def fs_readFile_def)

lemma openWorkspace_trees:
  assumes "openWorkspace e w profileId name = Inr (ws, scopedFS, archive)"
  shows "scopedFS = scopedFSes w (localFilesPath ws)"
    and "archive = archives w (publishTargetUrl ws)"
  using assms
  by (auto simp: openWorkspace_def bindE_def fetchWorkspace_def loadTrees_def split: sum.splits)

lemma listChangedFiles_opened:
  assumes "openWorkspace e w profileId name = Inr (ws, scopedFS, archive)"
  shows "listChangedFiles e w profileId name rawOpts
    = Inr (dft_diff scopedFS archive (Some (listDiffOpts e scopedFS rawOpts)))"
  using assms by (simp add: listChangedFiles_def bindE_def)

lemma listDiffOpts_filter:
  "filter_fn (listDiffOpts e scopedFS rawOpts)
     = Some (buildFilter (globMatch e) scopedFS (massageDiffOpts rawOpts))"
  by (simp add: listDiffOpts_def Let_def)

lemma buildFilter_ignore:
  "paths opts = None \<Longrightarrow>
     buildFilter g scopedFS opts filepath = anymatch g (readDatIgnore scopedFS) filepath"
  by (simp add: buildFilter_def)

lemma buildFilter_paths:
  "paths opts = Some targetPaths \<Longrightarrow>
     buildFilter g scopedFS opts filepath = makeDiffFilterByPaths targetPaths filepath"
  by (simp add: buildFilter_def)

text \<open>
  C2 as stated fails: the line \<^verbatim>\<open>../x\<close> does not start with the separator; it is prefixed to
  \<^verbatim>\<open>**/../x\<close> and normalized to \<^verbatim>\<open>x\<close>, a pattern without the marker.
\<close>

theorem readDatIgnore_marker_lost:
  "readDatIgnore [(''.datignore'', File ''../x'')] = [''x'', ''/.git'', ''/.dat'']"
  by (simp add: readDatIgnore_def ignoreRulesOf_def readFile_def fs_readFile_def prefixRule_def
      startsWith_def path_normalize_def path_sep_def)

text \<open>
  C2 (as amended). Without a \<^verbatim>\<open>paths\<close> option the filter is built from the ignore file:
  every non-empty line gives one pattern, the line prefixed with \<^verbatim>\<open>**/\<close> unless it starts
  with the separator and then normalized; \<^verbatim>\<open>/.git\<close> and \<^verbatim>\<open>/.dat\<close> follow whatever the
  file holds, and an absent file leaves these two alone. No entry of the returned diff
  has a path that one of the patterns matches.
\<close>

theorem readDatIgnore_rules:
  "readDatIgnore fs =
     map (\<lambda>line. path_normalize (prefixRule line))
       (filter (\<lambda>line. line \<noteq> []) (splitOn (CHR 0x0A) (readFile fs ''.datignore'')))
     @ [''/.git'', ''/.dat'']
   \<and> (map_of fs ''.datignore'' = None \<longrightarrow> readDatIgnore fs = [''/.git'', ''/.dat''])
   \<and> (paths (massageDiffOpts rawOpts) = None
        \<and> openWorkspace e w profileId name = Inr (ws, scopedFS, archive)
        \<and> listChangedFiles e w profileId name rawOpts = Inr ds
      \<longrightarrow> (\<forall>d \<in> set ds. \<not> anymatch (globMatch e) (readDatIgnore scopedFS) (entry_path d)))"
proof (intro conjI impI)
  show "readDatIgnore fs =
     map (\<lambda>line. path_normalize (prefixRule line))
       (filter (\<lambda>line. line \<noteq> []) (splitOn (CHR 0x0A) (readFile fs ''.datignore'')))
     @ [''/.git'', ''/.dat'']"
    by (simp only: readDatIgnore_def ignoreRulesOf_eq)
next
  assume "map_of fs ''.datignore'' = None"
  then have "readFile fs ''.datignore'' = []" by (rule readFile_absent)
  then show "readDatIgnore fs = [''/.git'', ''/.dat'']"
    by (simp add: readDatIgnore_def ignoreRulesOf_eq)
next
  assume h: "paths (massageDiffOpts rawOpts) = None
        \<and> openWorkspace e w profileId name = Inr (ws, scopedFS, archive)
        \<and> listChangedFiles e w profileId name rawOpts = Inr ds"
  then have ds: "ds = dft_diff scopedFS archive (Some (listDiffOpts e scopedFS rawOpts))"
    using listChangedFiles_opened [of e w profileId name ws scopedFS archive rawOpts] by simp
  show "\<forall>d \<in> set ds. \<not> anymatch (globMatch e) (readDatIgnore scopedFS) (entry_path d)"
  proof
    fix d assume "d \<in> set ds"
    then have "\<not> buildFilter (globMatch e) scopedFS (massageDiffOpts rawOpts) (entry_path d)"
      unfolding ds by (rule dft_diff_passes_filter) (rule listDiffOpts_filter)
    then show "\<not> anymatch (globMatch e) (readDatIgnore scopedFS) (entry_path d)"
      using h by (simp add: buildFilter_ignore)
  qed
qed

lemma sample_open:
  "openWorkspace sampleEnv (sampleWorld scopedFS archive) (JNum 0) ''site''
     = Inr (\<lparr>localFilesPath = ''/home/bob/site'', publishTargetUrl = ''dat://site''\<rparr>, scopedFS, archive)"
  by (simp add: op_defs sample_defs)

lemma sample_list_ignored:
  "listChangedFiles sampleEnv
      (sampleWorld [(''.datignore'', File ''/secret.txt''), (''/secret.txt'', File ''k''),
                    (''/a.txt'', File ''1'')] [])
      (JNum 0) ''site'' noOpts
   = Inr [\<lparr>entry_path = ''.datignore'', entry_change = Add, isDirectory = False\<rparr>,
          \<lparr>entry_path = ''/a.txt'', entry_change = Add, isDirectory = False\<rparr>]"
  by (subst listChangedFiles_opened [OF sample_open])
    (simp add: listDiffOpts_def massageDiffOpts_def
      buildFilter_def anymatch_def readDatIgnore_def ignoreRulesOf_def readFile_def fs_readFile_def
      prefixRule_def startsWith_def path_normalize_def sample_defs engine_defs)

theorem readDatIgnore_rules_witness:
  "readDatIgnore [(''.datignore'', File (''node_modules'' @ [CHR 0x0A] @ ''/dist'' @ [CHR 0x0A]))]
     = [''**/node_modules'', ''/dist'', ''/.git'', ''/.dat'']
   \<and> readDatIgnore [] = [''/.git'', ''/.dat'']
   \<and> anymatch (globMatch sampleEnv)
        (readDatIgnore [(''.datignore'', File ''/secret.txt''), (''/secret.txt'', File ''k''),
                        (''/a.txt'', File ''1'')]) ''/secret.txt''
   \<and> \<not> anymatch (globMatch sampleEnv)
        (readDatIgnore [(''.datignore'', File ''/secret.txt''), (''/secret.txt'', File ''k''),
                        (''/a.txt'', File ''1'')]) ''/a.txt''"
proof -
  let ?fs = "[(''.datignore'', File ''/secret.txt''), (''/secret.txt'', File ''k''),
              (''/a.txt'', File ''1'')]"
  let ?a = "\<lparr>entry_path = ''/a.txt'', entry_change = Add, isDirectory = False\<rparr>"
  have r1: "readDatIgnore [(''.datignore'', File (''node_modules'' @ [CHR 0x0A] @ ''/dist'' @ [CHR 0x0A]))]
     = [''**/node_modules'', ''/dist'', ''/.git'', ''/.dat'']"
    using readDatIgnore_rules [of "[(''.datignore'', File (''node_modules'' @ [CHR 0x0A] @ ''/dist'' @ [CHR 0x0A]))]",
        THEN conjunct1]
    by (simp add: readFile_def fs_readFile_def prefixRule_def startsWith_def path_normalize_def
        path_sep_def)
  have r2: "readDatIgnore [] = [''/.git'', ''/.dat'']"
    using readDatIgnore_rules [of "[]", THEN conjunct2, THEN conjunct1] by simp
  have "paths (massageDiffOpts noOpts) = None"
    by (simp add: massageDiffOpts_def noOpts_def)
  then have "\<forall>d \<in> set [\<lparr>entry_path = ''.datignore'', entry_change = Add, isDirectory = False\<rparr>, ?a].
      \<not> anymatch (globMatch sampleEnv) (readDatIgnore ?fs) (entry_path d)"
    using readDatIgnore_rules [of "[]" noOpts sampleEnv "sampleWorld ?fs []" "JNum 0" "''site''"
        "\<lparr>localFilesPath = ''/home/bob/site'', publishTargetUrl = ''dat://site''\<rparr>" ?fs "[]"
        "[\<lparr>entry_path = ''.datignore'', entry_change = Add, isDirectory = False\<rparr>, ?a]"]
      sample_open [of ?fs "[]"] sample_list_ignored
    by blast
  then have r4: "\<not> anymatch (globMatch sampleEnv) (readDatIgnore ?fs) ''/a.txt''"
    by simp
  have r3: "anymatch (globMatch sampleEnv) (readDatIgnore ?fs) ''/secret.txt''"
    by (simp add: anymatch_def readDatIgnore_def ignoreRulesOf_def readFile_def fs_readFile_def
        prefixRule_def startsWith_def path_normalize_def path_sep_def sampleEnv_def)
  from r1 r2 r3 r4 show ?thesis by simp
qed

section \<open>The polarity of the filter\<close>

lemma makeDiffFilterByPaths_eq:
  "makeDiffFilterByPaths targetPaths filepath = (\<not> inScope (map path_normalize targetPaths) filepath)"
  by (simp add: makeDiffFilterByPaths_def pathsFilterLoop_iff)

lemma sample_list_scoped:
  "listChangedFiles sampleEnv
      (sampleWorld [(''/docs'', Dir), (''/docs/a.txt'', File ''x''), (''/b.txt'', File ''y'')]
                   [(''/docs'', Dir)])
      (JNum 0) ''site'' (noOpts\<lparr>arg_paths := JArr [JStr ''/docs/'']\<rparr>)
   = Inr [\<lparr>entry_path = ''/docs/a.txt'', entry_change = Add, isDirectory = False\<rparr>]"
  by (subst listChangedFiles_opened [OF sample_open])
    (simp add: listDiffOpts_def massageDiffOpts_def buildFilter_def makeDiffFilterByPaths_def
      isParentFolder_def startsWith_def endsWith_def charAt_def path_normalize_def
      sample_defs engine_defs)

text \<open>
  C8 as stated fails: with \<^verbatim>\<open>paths: ['/docs/']\<close> the file \<^verbatim>\<open>/docs/a.txt\<close> is in the requested scope and is the
  one entry of the listing, and the filter answers false for it.
\<close>

theorem filter_false_on_included_path:
  "makeDiffFilterByPaths [''/docs/''] ''/docs/a.txt'' = False
   \<and> listChangedFiles sampleEnv
      (sampleWorld [(''/docs'', Dir), (''/docs/a.txt'', File ''x''), (''/b.txt'', File ''y'')]
                   [(''/docs'', Dir)])
      (JNum 0) ''site'' (noOpts\<lparr>arg_paths := JArr [JStr ''/docs/'']\<rparr>)
   = Inr [\<lparr>entry_path = ''/docs/a.txt'', entry_change = Add, isDirectory = False\<rparr>]"
  using sample_list_scoped
  by (simp add: makeDiffFilterByPaths_def isParentFolder_def startsWith_def endsWith_def
      charAt_def path_normalize_def path_sep_def)

text \<open>
  C8 (as amended). The active filter answers true on paths that are skipped: no entry of
  a diff has a path the filter answers true for. The ignore-rule filter answers true
  exactly on the paths an ignore pattern matches, and the path-scope filter answers
  false exactly on the paths within the requested scope and true on all others.
\<close>

theorem filter_true_means_skipped:
  "(\<forall>d \<in> set (dft_diff src dst (Some opts)). \<forall>f. filter_fn opts = Some f \<longrightarrow> \<not> f (entry_path d))
   \<and> (paths opts = None \<longrightarrow>
        buildFilter g scopedFS opts filepath = anymatch g (readDatIgnore scopedFS) filepath)
   \<and> (\<forall>targetPaths. paths opts = Some targetPaths \<longrightarrow>
        buildFilter g scopedFS opts filepath
          = (\<not> inScope (map path_normalize targetPaths) filepath))"
proof (intro conjI)
  show "\<forall>d \<in> set (dft_diff src dst (Some opts)). \<forall>f. filter_fn opts = Some f \<longrightarrow> \<not> f (entry_path d)"
    using dft_diff_passes_filter by blast
  show "paths opts = None \<longrightarrow>
        buildFilter g scopedFS opts filepath = anymatch g (readDatIgnore scopedFS) filepath"
    by (simp add: buildFilter_ignore)
  show "\<forall>targetPaths. paths opts = Some targetPaths \<longrightarrow>
        buildFilter g scopedFS opts filepath
          = (\<not> inScope (map path_normalize targetPaths) filepath)"
    by (simp add: buildFilter_paths makeDiffFilterByPaths_eq)
qed

theorem filter_true_means_skipped_witness:
  "buildFilter (globMatch sampleEnv)
      [(''/docs'', Dir), (''/docs/a.txt'', File ''x''), (''/b.txt'', File ''y'')]
      (massageDiffOpts (noOpts\<lparr>arg_paths := JArr [JStr ''/docs/'']\<rparr>)) ''/docs/a.txt'' = False
   \<and> buildFilter (globMatch sampleEnv) [] (massageDiffOpts (noOpts\<lparr>arg_paths := JArr [JStr ''/docs/'']\<rparr>))
      ''/b.txt'' = True
   \<and> buildFilter (globMatch sampleEnv) [] (massageDiffOpts noOpts) ''/.git'' = True
   \<and> buildFilter (globMatch sampleEnv) [] (massageDiffOpts noOpts) ''/a.txt'' = False"
proof -
  let ?raw = "noOpts\<lparr>arg_paths := JArr [JStr ''/docs/'']\<rparr>"
  let ?scoped = "massageDiffOpts ?raw"
  let ?L = "[(''/docs'', Dir), (''/docs/a.txt'', File ''x''), (''/b.txt'', File ''y'')]"
  let ?d = "\<lparr>entry_path = ''/docs/a.txt'', entry_change = Add, isDirectory = False\<rparr>"
  have p: "paths ?scoped = Some [''/docs/'']" "paths (massageDiffOpts noOpts) = None"
    by (simp_all add: massageDiffOpts_def noOpts_def)
  have "dft_diff ?L [(''/docs'', Dir)] (Some (listDiffOpts sampleEnv ?L ?raw)) = [?d]"
    using sample_list_scoped
    by (simp add: listChangedFiles_opened [OF sample_open])
  then have "?d \<in> set (dft_diff ?L [(''/docs'', Dir)] (Some (listDiffOpts sampleEnv ?L ?raw)))"
    by simp
  then have c1: "\<not> buildFilter (globMatch sampleEnv) ?L ?scoped ''/docs/a.txt''"
    using filter_true_means_skipped [of ?L "[(''/docs'', Dir)]" "listDiffOpts sampleEnv ?L ?raw",
        THEN conjunct1]
      listDiffOpts_filter [of sampleEnv ?L ?raw]
    by fastforce
  have a: "buildFilter (globMatch sampleEnv) [] ?scoped f
      = (\<not> inScope (map path_normalize [''/docs/'']) f)" for f
    using filter_true_means_skipped [of "[]" "[]" ?scoped "globMatch sampleEnv" "[]" f] p(1)
    by blast
  have b: "buildFilter (globMatch sampleEnv) [] (massageDiffOpts noOpts) f
      = anymatch (globMatch sampleEnv) (readDatIgnore []) f" for f
    using filter_true_means_skipped [of "[]" "[]" "massageDiffOpts noOpts" "globMatch sampleEnv" "[]" f] p(2)
    by blast
  have n: "map path_normalize [''/docs/''] = [''/docs/'']"
    by (simp add: path_normalize_def path_sep_def)
  have s: "\<not> inScope [''/docs/''] ''/b.txt''"
    by (simp_all add: inScope_def equalsTarget_def belowDirectoryTarget_def ancestorOfTarget_def
        startsWith_def endsWith_def path_sep_def)
  have r: "readDatIgnore [] = [''/.git'', ''/.dat'']"
    by (simp add: readDatIgnore_def ignoreRulesOf_eq readFile_absent)
  have g: "globMatch sampleEnv = (\<lambda>rule p. rule = p)"
    by (simp add: sampleEnv_def)
  have rest: "buildFilter (globMatch sampleEnv) [] ?scoped ''/b.txt'' = True
   \<and> buildFilter (globMatch sampleEnv) [] (massageDiffOpts noOpts) ''/.git'' = True
   \<and> buildFilter (globMatch sampleEnv) [] (massageDiffOpts noOpts) ''/a.txt'' = False"
    unfolding a b n r using s by (simp add: anymatch_def g)
  from c1 rest show ?thesis by simp
qed

section \<open>Publish and revert diff deeply\<close>

lemma present_iff: "present t p \<longleftrightarrow> p \<in> fst ` set t"
  by (simp add: present_def map_of_eq_None_iff)

lemma candidates_iff: "p \<in> set (candidates src dst) \<longleftrightarrow> present src p \<or> present dst p"
  by (auto simp: candidates_def present_iff)

lemma classify_onlyIn_src:
  "onlyIn src dst p \<Longrightarrow> \<exists>d. classify cmp src dst p = Some d \<and> entry_path d = p \<and> entry_change d = Add"
  by (auto simp: onlyIn_def present_def classify_def)

lemma classify_onlyIn_dst:
  "onlyIn dst src p \<Longrightarrow> \<exists>d. classify cmp src dst p = Some d \<and> entry_path d = p \<and> entry_change d = Remove"
  by (auto simp: onlyIn_def present_def classify_def)

lemma dft_diff_deep_complete:
  assumes "shallow opts = False"
    and "onlyIn src dst p \<or> onlyIn dst src p"
    and "\<not> skippedByFilter (filter_fn opts) p"
  shows "\<exists>d \<in> set (dft_diff src dst (Some opts)). entry_path d = p"
proof -
  have c: "p \<in> set (candidates src dst)"
    using assms(2) by (auto simp: candidates_iff onlyIn_def)
  obtain d where d: "classify (compareContent opts) src dst p = Some d" "entry_path d = p"
    using assms(2) classify_onlyIn_src [of src dst p "compareContent opts"]
      classify_onlyIn_dst [of dst src p "compareContent opts"] by blast
  have "d \<in> set (dft_diff src dst (Some opts))"
    unfolding dft_diff_def Let_def in_map_filter
    using c d(1) assms(1,3) by (auto simp: suppressedByShallow_def)
  with d(2) show ?thesis by blast
qed

lemma massageDiffOpts_shallow_irrelevant:
  "(massageDiffOpts (rawOpts\<lparr>arg_shallow := v\<rparr>))\<lparr>shallow := False\<rparr>
     = (massageDiffOpts rawOpts)\<lparr>shallow := False\<rparr>"
  by (simp add: massageDiffOpts_def)

lemma buildFilter_shallow_irrelevant:
  "buildFilter g fs (opts\<lparr>shallow := b\<rparr>) = buildFilter g fs opts"
  by (simp add: buildFilter_def)

lemma applyDiffOpts_eq:
  "applyDiffOpts e fs rawOpts =
     (massageDiffOpts rawOpts)
       \<lparr>shallow := False,
        filter_fn := Some (buildFilter (globMatch e) fs ((massageDiffOpts rawOpts)\<lparr>shallow := False\<rparr>))\<rparr>"
  by (simp add: applyDiffOpts_def Let_def buildFilter_shallow_irrelevant)

lemma applyDiffOpts_shallow_irrelevant:
  "applyDiffOpts e fs (rawOpts\<lparr>arg_shallow := v\<rparr>) = applyDiffOpts e fs rawOpts"
  unfolding applyDiffOpts_eq massageDiffOpts_shallow_irrelevant
  by (simp add: massageDiffOpts_def)

lemma dft_diff_deep_entry:
  assumes "shallow opts = False"
    and "onlyIn src dst p \<or> onlyIn dst src p"
    and "\<not> skippedByFilter (filter_fn opts) p"
  shows "\<exists>d \<in> set (dft_diff src dst (Some opts)). entry_path d = p
      \<and> entry_change d = (if onlyIn src dst p then Add else Remove)"
proof -
  have c: "p \<in> set (candidates src dst)"
    using assms(2) by (auto simp: candidates_iff onlyIn_def)
  have x: "\<not> (onlyIn src dst p \<and> onlyIn dst src p)"
    by (auto simp: onlyIn_def)
  obtain d where d: "classify (compareContent opts) src dst p = Some d" "entry_path d = p"
      "entry_change d = (if onlyIn src dst p then Add else Remove)"
    using assms(2) x classify_onlyIn_src [of src dst p "compareContent opts"]
      classify_onlyIn_dst [of dst src p "compareContent opts"] by auto
  have "d \<in> set (dft_diff src dst (Some opts))"
    unfolding dft_diff_def Let_def in_map_filter
    using c d(1) assms(1,3) by (auto simp: suppressedByShallow_def)
  with d(2,3) show ?thesis by blast
qed

lemma classify_kinds:
  assumes "classify cmp src dst p = Some d"
  shows "entry_change d = Add \<longrightarrow> onlyIn src dst p"
    and "entry_change d = Remove \<longrightarrow> onlyIn dst src p"
    and "entry_change d = Modify \<longrightarrow> present src p \<and> present dst p"
  using assms
  by (auto simp: classify_def onlyIn_def present_def split: option.splits if_splits)

lemma dft_diff_kinds:
  assumes "d \<in> set (dft_diff src dst opts)"
  shows "entry_change d = Add \<longrightarrow> onlyIn src dst (entry_path d)"
    and "entry_change d = Remove \<longrightarrow> onlyIn dst src (entry_path d)"
    and "entry_change d = Modify \<longrightarrow> present src (entry_path d) \<and> present dst (entry_path d)"
proof -
  from assms obtain p where
    c: "classify (case opts of None \<Rightarrow> True | Some given \<Rightarrow> compareContent given) src dst p = Some d"
    by (rule dft_diff_entry)
  then have "entry_path d = p" by (rule classify_Some)
  with classify_kinds [OF c]
  show "entry_change d = Add \<longrightarrow> onlyIn src dst (entry_path d)"
    and "entry_change d = Remove \<longrightarrow> onlyIn dst src (entry_path d)"
    and "entry_change d = Modify \<longrightarrow> present src (entry_path d) \<and> present dst (entry_path d)"
    by simp_all
qed

text \<open>One step of an apply, whichever the direction: a copy from the source of the
  copies or a removal.\<close>

lemma applyEntryRight_step:
  "applyEntryRight left = (\<lambda>t d. if entry_change d \<noteq> Remove then copyPath left t (entry_path d)
      else Inr (removePath t (entry_path d)))"
  by (auto simp: applyEntryRight_def fun_eq_iff split: change.splits)

lemma applyEntryLeft_step:
  "applyEntryLeft right = (\<lambda>t d. if entry_change d \<noteq> Add then copyPath right t (entry_path d)
      else Inr (removePath t (entry_path d)))"
  by (auto simp: applyEntryLeft_def fun_eq_iff split: change.splits)

lemma removePath_keeps:
  assumes "q \<noteq> p" and "q \<notin> set (ancestors p)"
  shows "map_of (removePath t q) p = map_of t p"
  using assms unfolding removePath_def
  by (induction t) auto

lemma copyPath_at:
  assumes "map_of src q = Some m"
  shows "\<exists>t'. copyPath src t q = Inr t' \<and> map_of t' q = Some m"
  using assms by (simp add: copyPath_def update_conv')

lemma applyEntries_keeps_copied:
  assumes "map_of t p = Some n" and "map_of src p = Some n"
    and "\<forall>d \<in> set ds. C d \<longrightarrow> map_of src (entry_path d) \<noteq> None"
    and "\<forall>d \<in> set ds. \<not> C d \<longrightarrow> entry_path d \<noteq> p \<and> entry_path d \<notin> set (ancestors p)"
  shows "\<exists>t'. applyEntries (\<lambda>t d. if C d then copyPath src t (entry_path d)
            else Inr (removePath t (entry_path d))) t ds = (None, t')
          \<and> map_of t' p = Some n"
  using assms
proof (induction ds arbitrary: t)
  case Nil
  then show ?case by simp
next
  case (Cons d ds)
  let ?step = "\<lambda>t d. if C d then copyPath src t (entry_path d)
            else Inr (removePath t (entry_path d))"
  have rest3: "\<forall>d \<in> set ds. C d \<longrightarrow> map_of src (entry_path d) \<noteq> None"
    and rest4: "\<forall>d \<in> set ds. \<not> C d \<longrightarrow> entry_path d \<noteq> p \<and> entry_path d \<notin> set (ancestors p)"
    using Cons.prems(3,4) by simp_all
  show ?case
  proof (cases "C d")
    case True
    then obtain m where m: "map_of src (entry_path d) = Some m"
      using Cons.prems(3) by auto
    then obtain t1 where t1: "copyPath src t (entry_path d) = Inr t1"
      and at: "map_of t1 (entry_path d) = Some m"
      using copyPath_at by blast
    have "map_of t1 p = Some n"
    proof (cases "entry_path d = p")
      case True
      then show ?thesis using at m Cons.prems(2) by simp
    next
      case False
      then show ?thesis using copyPath_keeps [OF t1 Cons.prems(1)] by blast
    qed
    from Cons.IH [OF this Cons.prems(2) rest3 rest4]
    show ?thesis using True t1 by simp
  next
    case False
    then have "map_of (removePath t (entry_path d)) p = Some n"
      using Cons.prems(1,4) by (simp add: removePath_keeps)
    from Cons.IH [OF this Cons.prems(2) rest3 rest4]
    show ?thesis using False by simp
  qed
qed

lemma applyEntries_reaches_copied:
  assumes "d0 \<in> set ds" and "C d0" and "entry_path d0 = p" and "map_of src p = Some n"
    and "\<forall>d \<in> set ds. C d \<longrightarrow> map_of src (entry_path d) \<noteq> None"
    and "\<forall>d \<in> set ds. \<not> C d \<longrightarrow> entry_path d \<noteq> p \<and> entry_path d \<notin> set (ancestors p)"
  shows "\<exists>t'. applyEntries (\<lambda>t d. if C d then copyPath src t (entry_path d)
            else Inr (removePath t (entry_path d))) t ds = (None, t')
          \<and> map_of t' p = Some n"
  using assms
proof (induction ds arbitrary: t)
  case Nil
  then show ?case by simp
next
  case (Cons d ds)
  have rest5: "\<forall>d \<in> set ds. C d \<longrightarrow> map_of src (entry_path d) \<noteq> None"
    and rest6: "\<forall>d \<in> set ds. \<not> C d \<longrightarrow> entry_path d \<noteq> p \<and> entry_path d \<notin> set (ancestors p)"
    using Cons.prems(5,6) by simp_all
  show ?case
  proof (cases "C d")
    case True
    then obtain m where m: "map_of src (entry_path d) = Some m"
      using Cons.prems(5) by auto
    then obtain t1 where t1: "copyPath src t (entry_path d) = Inr t1"
      and at: "map_of t1 (entry_path d) = Some m"
      using copyPath_at by blast
    show ?thesis
    proof (cases "entry_path d = p")
      case same: True
      then have "map_of t1 p = Some n"
        using at m Cons.prems(4) by simp
      from applyEntries_keeps_copied [OF this Cons.prems(4) rest5 rest6]
      show ?thesis using True t1 by simp
    next
      case False
      then have "d0 \<in> set ds"
        using Cons.prems(1,3) by auto
      from Cons.IH [OF this Cons.prems(2,3,4) rest5 rest6]
      show ?thesis using True t1 by simp
    qed
  next
    case False
    then have "d0 \<in> set ds"
      using Cons.prems(1,2) by auto
    from Cons.IH [OF this Cons.prems(2,3,4) rest5 rest6]
    show ?thesis using False by simp
  qed
qed

lemma publish_opened:
  assumes "openWorkspace e w profileId name = Inr (ws, scopedFS, archive)"
  shows "publish e w profileId name rawOpts =
     (case dft_applyRight scopedFS archive
             (dft_diff scopedFS archive (Some (applyDiffOpts e scopedFS rawOpts))) of
        (failure, archive') \<Rightarrow>
          (case failure of Some err \<Rightarrow> Inl err | None \<Rightarrow> Inr (),
           w\<lparr>archives := (archives w)(publishTargetUrl ws := archive')\<rparr>))"
  using assms by (simp add: publish_def)

lemma revert_opened:
  assumes "openWorkspace e w profileId name = Inr (ws, scopedFS, archive)"
  shows "revert e w profileId name rawOpts =
     (case dft_applyLeft scopedFS archive
             (dft_diff scopedFS archive (Some (applyDiffOpts e scopedFS rawOpts))) of
        (failure, scopedFS') \<Rightarrow>
          (case failure of Some err \<Rightarrow> Inl err | None \<Rightarrow> Inr (),
           w\<lparr>scopedFSes := (scopedFSes w)(localFilesPath ws := scopedFS')\<rparr>))"
  using assms by (simp add: revert_def)

lemma deep_applyRight_copies:
  assumes "shallow opts = False"
    and "map_of left p = Some n" and "map_of right p = None"
    and "\<not> skippedByFilter (filter_fn opts) p"
    and "\<forall>q \<in> set (ancestors p). \<not> onlyIn right left q"
  shows "\<exists>right'. dft_applyRight left right (dft_diff left right (Some opts)) = (None, right')
      \<and> map_of right' p = Some n"
proof -
  let ?ds = "dft_diff left right (Some opts)"
  have only: "onlyIn left right p"
    using assms(2,3) by (simp add: onlyIn_def present_def)
  then obtain d0 where d0: "d0 \<in> set ?ds" "entry_path d0 = p" "entry_change d0 = Add"
    using dft_diff_deep_entry [OF assms(1) _ assms(4), of left right] by auto
  have copies: "\<forall>d \<in> set ?ds. entry_change d \<noteq> Remove \<longrightarrow> map_of left (entry_path d) \<noteq> None"
  proof (intro ballI impI)
    fix d assume d: "d \<in> set ?ds" "entry_change d \<noteq> Remove"
    then have "present left (entry_path d)"
      using dft_diff_kinds [OF d(1)] by (cases "entry_change d") (auto simp: onlyIn_def)
    then show "map_of left (entry_path d) \<noteq> None"
      by (simp add: present_def)
  qed
  have removes: "\<forall>d \<in> set ?ds. \<not> entry_change d \<noteq> Remove \<longrightarrow>
      entry_path d \<noteq> p \<and> entry_path d \<notin> set (ancestors p)"
  proof (intro ballI impI)
    fix d assume d: "d \<in> set ?ds" "\<not> entry_change d \<noteq> Remove"
    then have o: "onlyIn right left (entry_path d)"
      using dft_diff_kinds(2) [OF d(1)] by simp
    then have "entry_path d \<noteq> p"
      using assms(2) by (auto simp: onlyIn_def present_def)
    moreover have "entry_path d \<notin> set (ancestors p)"
      using o assms(5) by blast
    ultimately show "entry_path d \<noteq> p \<and> entry_path d \<notin> set (ancestors p)" by simp
  qed
  have "entry_change d0 \<noteq> Remove" using d0(3) by simp
  from applyEntries_reaches_copied [of d0 ?ds "\<lambda>d. entry_change d \<noteq> Remove" p left n right,
      OF d0(1) this d0(2) assms(2) copies removes]
  show ?thesis
    by (simp add: dft_applyRight_def applyEntryRight_step)
qed

lemma deep_applyLeft_copies:
  assumes "shallow opts = False"
    and "map_of right p = Some n" and "map_of left p = None"
    and "\<not> skippedByFilter (filter_fn opts) p"
    and "\<forall>q \<in> set (ancestors p). \<not> onlyIn left right q"
  shows "\<exists>left'. dft_applyLeft left right (dft_diff left right (Some opts)) = (None, left')
      \<and> map_of left' p = Some n"
proof -
  let ?ds = "dft_diff left right (Some opts)"
  have only: "onlyIn right left p" and notl: "\<not> onlyIn left right p"
    using assms(2,3) by (simp_all add: onlyIn_def present_def)
  then obtain d0 where d0: "d0 \<in> set ?ds" "entry_path d0 = p" "entry_change d0 = Remove"
    using dft_diff_deep_entry [OF assms(1) _ assms(4), of left right] by auto
  have copies: "\<forall>d \<in> set ?ds. entry_change d \<noteq> Add \<longrightarrow> map_of right (entry_path d) \<noteq> None"
  proof (intro ballI impI)
    fix d assume d: "d \<in> set ?ds" "entry_change d \<noteq> Add"
    then have "present right (entry_path d)"
      using dft_diff_kinds [OF d(1)] by (cases "entry_change d") (auto simp: onlyIn_def)
    then show "map_of right (entry_path d) \<noteq> None"
      by (simp add: present_def)
  qed
  have removes: "\<forall>d \<in> set ?ds. \<not> entry_change d \<noteq> Add \<longrightarrow>
      entry_path d \<noteq> p \<and> entry_path d \<notin> set (ancestors p)"
  proof (intro ballI impI)
    fix d assume d: "d \<in> set ?ds" "\<not> entry_change d \<noteq> Add"
    then have o: "onlyIn left right (entry_path d)"
      using dft_diff_kinds(1) [OF d(1)] by simp
    then have "entry_path d \<noteq> p"
      using assms(3) by (auto simp: onlyIn_def present_def)
    moreover have "entry_path d \<notin> set (ancestors p)"
      using o assms(5) by blast
    ultimately show "entry_path d \<noteq> p \<and> entry_path d \<notin> set (ancestors p)" by simp
  qed
  have "entry_change d0 \<noteq> Add" using d0(3) by simp
  from applyEntries_reaches_copied [of d0 ?ds "\<lambda>d. entry_change d \<noteq> Add" p right n left,
      OF d0(1) this d0(2) assms(2) copies removes]
  show ?thesis
    by (simp add: dft_applyLeft_def applyEntryLeft_step)
qed

text \<open>
  C4. Whatever the caller's options hold, also \<^verbatim>\<open>shallow: true\<close>, \<^verbatim>\<open>publish\<close> and \<^verbatim>\<open>revert\<close>
  run the diff engine on the local tree and the archive with options whose \<^verbatim>\<open>shallow\<close> is
  false, and apply its entries to the archive (\<^verbatim>\<open>publish\<close>) or to the local tree
  (\<^verbatim>\<open>revert\<close>); the caller's value has no effect on either operation. Every path only one
  tree has, and the filter lets through, gets an entry of its own, also below a
  directory only one tree has; so \<^verbatim>\<open>publish\<close> succeeds and leaves in the archive every such
  path of the local tree with its node, and \<^verbatim>\<open>revert\<close> succeeds and leaves in the local tree
  every such path of the archive with its node (provided no directory above the path is
  removed by the same apply).
\<close>

theorem publish_revert_never_shallow:
  "shallow (applyDiffOpts e scopedFS rawOpts) = False
   \<and> publish e w profileId name (rawOpts\<lparr>arg_shallow := v\<rparr>) = publish e w profileId name rawOpts
   \<and> revert e w profileId name (rawOpts\<lparr>arg_shallow := v\<rparr>) = revert e w profileId name rawOpts
   \<and> ((onlyIn scopedFS archive p \<or> onlyIn archive scopedFS p)
        \<and> \<not> skippedByFilter (filter_fn (applyDiffOpts e scopedFS rawOpts)) p
      \<longrightarrow> (\<exists>d \<in> set (dft_diff scopedFS archive (Some (applyDiffOpts e scopedFS rawOpts))).
            entry_path d = p))
   \<and> (openWorkspace e w profileId name = Inr (ws, scopedFS, archive) \<longrightarrow>
        publish e w profileId name rawOpts =
          (case dft_applyRight scopedFS archive
                  (dft_diff scopedFS archive (Some (applyDiffOpts e scopedFS rawOpts))) of
             (failure, archive') \<Rightarrow>
               (case failure of Some err \<Rightarrow> Inl err | None \<Rightarrow> Inr (),
                w\<lparr>archives := (archives w)(publishTargetUrl ws := archive')\<rparr>))
        \<and> revert e w profileId name rawOpts =
          (case dft_applyLeft scopedFS archive
                  (dft_diff scopedFS archive (Some (applyDiffOpts e scopedFS rawOpts))) of
             (failure, scopedFS') \<Rightarrow>
               (case failure of Some err \<Rightarrow> Inl err | None \<Rightarrow> Inr (),
                w\<lparr>scopedFSes := (scopedFSes w)(localFilesPath ws := scopedFS')\<rparr>))
        \<and> (\<forall>x n. map_of scopedFS x = Some n \<and> map_of archive x = None
              \<and> \<not> skippedByFilter (filter_fn (applyDiffOpts e scopedFS rawOpts)) x
              \<and> (\<forall>q \<in> set (ancestors x). \<not> onlyIn archive scopedFS q)
            \<longrightarrow> fst (publish e w profileId name rawOpts) = Inr ()
                \<and> map_of (archives (snd (publish e w profileId name rawOpts)) (publishTargetUrl ws)) x
                    = Some n)
        \<and> (\<forall>x n. map_of archive x = Some n \<and> map_of scopedFS x = None
              \<and> \<not> skippedByFilter (filter_fn (applyDiffOpts e scopedFS rawOpts)) x
              \<and> (\<forall>q \<in> set (ancestors x). \<not> onlyIn scopedFS archive q)
            \<longrightarrow> fst (revert e w profileId name rawOpts) = Inr ()
                \<and> map_of (scopedFSes (snd (revert e w profileId name rawOpts)) (localFilesPath ws)) x
                    = Some n))"
proof (intro conjI impI allI)
  show s: "shallow (applyDiffOpts e scopedFS rawOpts) = False"
    by (simp add: applyDiffOpts_def Let_def)
  show "publish e w profileId name (rawOpts\<lparr>arg_shallow := v\<rparr>) = publish e w profileId name rawOpts"
    unfolding publish_def applyDiffOpts_shallow_irrelevant by (rule refl)
  show "revert e w profileId name (rawOpts\<lparr>arg_shallow := v\<rparr>) = revert e w profileId name rawOpts"
    unfolding revert_def applyDiffOpts_shallow_irrelevant by (rule refl)
  show "\<exists>d \<in> set (dft_diff scopedFS archive (Some (applyDiffOpts e scopedFS rawOpts))).
            entry_path d = p"
    if "(onlyIn scopedFS archive p \<or> onlyIn archive scopedFS p)
        \<and> \<not> skippedByFilter (filter_fn (applyDiffOpts e scopedFS rawOpts)) p"
    using that dft_diff_deep_complete [OF s] by blast
  assume o: "openWorkspace e w profileId name = Inr (ws, scopedFS, archive)"
  show "publish e w profileId name rawOpts =
          (case dft_applyRight scopedFS archive
                  (dft_diff scopedFS archive (Some (applyDiffOpts e scopedFS rawOpts))) of
             (failure, archive') \<Rightarrow>
               (case failure of Some err \<Rightarrow> Inl err | None \<Rightarrow> Inr (),
                w\<lparr>archives := (archives w)(publishTargetUrl ws := archive')\<rparr>))"
    using o by (rule publish_opened)
  show "revert e w profileId name rawOpts =
          (case dft_applyLeft scopedFS archive
                  (dft_diff scopedFS archive (Some (applyDiffOpts e scopedFS rawOpts))) of
             (failure, scopedFS') \<Rightarrow>
               (case failure of Some err \<Rightarrow> Inl err | None \<Rightarrow> Inr (),
                w\<lparr>scopedFSes := (scopedFSes w)(localFilesPath ws := scopedFS')\<rparr>))"
    using o by (rule revert_opened)
  {
    fix x n
    assume h: "map_of scopedFS x = Some n \<and> map_of archive x = None
              \<and> \<not> skippedByFilter (filter_fn (applyDiffOpts e scopedFS rawOpts)) x
              \<and> (\<forall>q \<in> set (ancestors x). \<not> onlyIn archive scopedFS q)"
    then obtain archive' where
      a: "dft_applyRight scopedFS archive
            (dft_diff scopedFS archive (Some (applyDiffOpts e scopedFS rawOpts))) = (None, archive')"
      and b: "map_of archive' x = Some n"
      using deep_applyRight_copies [OF s, of scopedFS x n archive] by blast
    show "fst (publish e w profileId name rawOpts) = Inr ()"
      by (simp add: publish_opened [OF o] a)
    show "map_of (archives (snd (publish e w profileId name rawOpts)) (publishTargetUrl ws)) x = Some n"
      by (simp add: publish_opened [OF o] a b)
  }
  {
    fix x n
    assume h: "map_of archive x = Some n \<and> map_of scopedFS x = None
              \<and> \<not> skippedByFilter (filter_fn (applyDiffOpts e scopedFS rawOpts)) x
              \<and> (\<forall>q \<in> set (ancestors x). \<not> onlyIn scopedFS archive q)"
    then obtain scopedFS' where
      a: "dft_applyLeft scopedFS archive
            (dft_diff scopedFS archive (Some (applyDiffOpts e scopedFS rawOpts))) = (None, scopedFS')"
      and b: "map_of scopedFS' x = Some n"
      using deep_applyLeft_copies [OF s, of archive x n scopedFS] by blast
    show "fst (revert e w profileId name rawOpts) = Inr ()"
      by (simp add: revert_opened [OF o] a)
    show "map_of (scopedFSes (snd (revert e w profileId name rawOpts)) (localFilesPath ws)) x = Some n"
      by (simp add: revert_opened [OF o] a b)
  }
qed

lemma sample_filter_passes:
  "\<not> skippedByFilter
       (filter_fn (applyDiffOpts sampleEnv [(''/img'', Dir), (''/img/a.txt'', File ''x'')]
          (noOpts\<lparr>arg_shallow := JBool True\<rparr>))) ''/img/a.txt''"
  "\<not> skippedByFilter
       (filter_fn (applyDiffOpts sampleEnv [] (noOpts\<lparr>arg_shallow := JBool True\<rparr>))) ''/old/x''"
  by (simp_all add: applyDiffOpts_def massageDiffOpts_def buildFilter_def anymatch_def
      readDatIgnore_def ignoreRulesOf_eq readFile_def fs_readFile_def sample_defs
      skippedByFilter_def ancestors_def path_sep_def)

theorem publish_revert_never_shallow_witness:
  "fst (publish sampleEnv (sampleWorld [(''/img'', Dir), (''/img/a.txt'', File ''x'')] [])
      (JNum 0) ''site'' (noOpts\<lparr>arg_shallow := JBool True\<rparr>)) = Inr ()
   \<and> map_of (archives (snd (publish sampleEnv
        (sampleWorld [(''/img'', Dir), (''/img/a.txt'', File ''x'')] [])
        (JNum 0) ''site'' (noOpts\<lparr>arg_shallow := JBool True\<rparr>))) ''dat://site'') ''/img/a.txt''
      = Some (File ''x'')
   \<and> fst (revert sampleEnv (sampleWorld [] [(''/old'', Dir), (''/old/x'', File ''y'')])
      (JNum 0) ''site'' (noOpts\<lparr>arg_shallow := JBool True\<rparr>)) = Inr ()
   \<and> map_of (scopedFSes (snd (revert sampleEnv
        (sampleWorld [] [(''/old'', Dir), (''/old/x'', File ''y'')])
        (JNum 0) ''site'' (noOpts\<lparr>arg_shallow := JBool True\<rparr>))) ''/home/bob/site'') ''/old/x''
      = Some (File ''y'')"
proof -
  let ?raw = "noOpts\<lparr>arg_shallow := JBool True\<rparr>"
  let ?ws = "\<lparr>localFilesPath = ''/home/bob/site'', publishTargetUrl = ''dat://site''\<rparr>"
  let ?L = "[(''/img'', Dir), (''/img/a.txt'', File ''x'')]"
  let ?A = "[(''/old'', Dir), (''/old/x'', File ''y'')]"
  have anc: "\<forall>q \<in> set (ancestors ''/img/a.txt''). \<not> onlyIn [] ?L q"
    "\<forall>q \<in> set (ancestors ''/old/x''). \<not> onlyIn [] ?A q"
    by (simp_all add: onlyIn_def present_def)
  note opened_L = publish_revert_never_shallow [where e = sampleEnv and scopedFS = ?L
      and archive = "[]" and rawOpts = ?raw and w = "sampleWorld ?L []" and profileId = "JNum 0"
      and name = "''site''" and ws = ?ws,
      THEN conjunct2, THEN conjunct2, THEN conjunct2, THEN conjunct2, THEN mp,
      OF sample_open [of ?L "[]"]]
  note opened_A = publish_revert_never_shallow [where e = sampleEnv and scopedFS = "[]"
      and archive = ?A and rawOpts = ?raw and w = "sampleWorld [] ?A" and profileId = "JNum 0"
      and name = "''site''" and ws = ?ws,
      THEN conjunct2, THEN conjunct2, THEN conjunct2, THEN conjunct2, THEN mp,
      OF sample_open [of "[]" ?A]]
  have l: "map_of ?L ''/img/a.txt'' = Some (File ''x'')" "map_of [] ''/img/a.txt'' = None"
    "map_of ?A ''/old/x'' = Some (File ''y'')" "map_of [] ''/old/x'' = None"
    by simp_all
  have pub: "fst (publish sampleEnv (sampleWorld ?L []) (JNum 0) ''site'' ?raw) = Inr ()
      \<and> map_of (archives (snd (publish sampleEnv (sampleWorld ?L []) (JNum 0) ''site'' ?raw))
           (publishTargetUrl ?ws)) ''/img/a.txt'' = Some (File ''x'')"
    using opened_L [THEN conjunct2, THEN conjunct2, THEN conjunct1, THEN spec, THEN spec, THEN mp,
        of "''/img/a.txt''" "File ''x''"] l(1,2) sample_filter_passes(1) anc(1)
    by blast
  have rev: "fst (revert sampleEnv (sampleWorld [] ?A) (JNum 0) ''site'' ?raw) = Inr ()
      \<and> map_of (scopedFSes (snd (revert sampleEnv (sampleWorld [] ?A) (JNum 0) ''site'' ?raw))
           (localFilesPath ?ws)) ''/old/x'' = Some (File ''y'')"
    using opened_A [THEN conjunct2, THEN conjunct2, THEN conjunct2, THEN spec, THEN spec, THEN mp,
        of "''/old/x''" "File ''y''"] l(3,4) sample_filter_passes(2) anc(2)
    by blast
  from pub rev show ?thesis by simp
qed

section \<open>The empty allow-list\<close>

lemma massageDiffOpts_empty_paths:
  "arg_paths rawOpts = JArr [] \<Longrightarrow> paths (massageDiffOpts rawOpts) = Some []"
  by (simp add: massageDiffOpts_def)

lemma makeDiffFilterByPaths_Nil: "makeDiffFilterByPaths [] filepath"
  by (simp add: makeDiffFilterByPaths_def)

lemma dft_diff_all_filtered:
  assumes "filter_fn opts = Some f" and "\<And>p. f p"
  shows "dft_diff src dst (Some opts) = []"
proof -
  have "d \<notin> set (dft_diff src dst (Some opts))" for d
    using dft_diff_passes_filter [OF _ assms(1), of d src dst] assms(2) [of "entry_path d"] by blast
  then show ?thesis
    by (cases "dft_diff src dst (Some opts)") auto
qed

lemma applyDiffOpts_filter:
  "filter_fn (applyDiffOpts e scopedFS rawOpts)
     = Some (buildFilter (globMatch e) scopedFS (massageDiffOpts rawOpts))"
  by (simp add: applyDiffOpts_def Let_def)

lemma empty_paths_diffs:
  assumes "arg_paths rawOpts = JArr []"
  shows "dft_diff src dst (Some (listDiffOpts e fs rawOpts)) = []"
    and "dft_diff src dst (Some (applyDiffOpts e fs rawOpts)) = []"
proof -
  have "buildFilter (globMatch e) fs (massageDiffOpts rawOpts) p" for p
    using massageDiffOpts_empty_paths [OF assms]
    by (simp add: buildFilter_paths makeDiffFilterByPaths_Nil)
  then show "dft_diff src dst (Some (listDiffOpts e fs rawOpts)) = []"
    and "dft_diff src dst (Some (applyDiffOpts e fs rawOpts)) = []"
    using dft_diff_all_filtered [OF listDiffOpts_filter] dft_diff_all_filtered [OF applyDiffOpts_filter]
    by blast+
qed

lemma world_update_same:
  "w\<lparr>archives := (archives w)(u := archives w u)\<rparr> = w"
  "w\<lparr>scopedFSes := (scopedFSes w)(l := scopedFSes w l)\<rparr> = w"
  by simp_all

lemma publish_empty_paths:
  assumes "arg_paths rawOpts = JArr []"
  shows "publish e w profileId name rawOpts
    = (case openWorkspace e w profileId name of Inl err \<Rightarrow> (Inl err, w) | Inr opened \<Rightarrow> (Inr (), w))"
proof (cases "openWorkspace e w profileId name")
  case (Inl err)
  then show ?thesis by (simp add: publish_def)
next
  case (Inr opened)
  obtain ws fs ar where o: "opened = (ws, fs, ar)" by (cases opened) auto
  have "ar = archives w (publishTargetUrl ws)"
    using Inr o openWorkspace_trees(2) by blast
  then show ?thesis
    using Inr o by (simp add: publish_def empty_paths_diffs [OF assms] dft_applyRight_def)
qed

lemma revert_empty_paths:
  assumes "arg_paths rawOpts = JArr []"
  shows "revert e w profileId name rawOpts
    = (case openWorkspace e w profileId name of Inl err \<Rightarrow> (Inl err, w) | Inr opened \<Rightarrow> (Inr (), w))"
proof (cases "openWorkspace e w profileId name")
  case (Inl err)
  then show ?thesis by (simp add: revert_def)
next
  case (Inr opened)
  obtain ws fs ar where o: "opened = (ws, fs, ar)" by (cases opened) auto
  have "fs = scopedFSes w (localFilesPath ws)"
    using Inr o openWorkspace_trees(1) by blast
  then show ?thesis
    using Inr o by (simp add: revert_def empty_paths_diffs [OF assms] dft_applyLeft_def)
qed

text \<open>
  C10. With \<^verbatim>\<open>paths: []\<close> the option survives \<^verbatim>\<open>massageDiffOpts\<close> as an empty allow-list,
  which is truthy; the path-scope filter built from it answers true for every path, and
  that excludes every path: \<^verbatim>\<open>listChangedFiles\<close> returns no entry, and \<^verbatim>\<open>publish\<close> and
  \<^verbatim>\<open>revert\<close> leave both trees as they were.
\<close>

theorem empty_paths_excludes_everything:
  assumes "arg_paths rawOpts = JArr []"
  shows "paths (massageDiffOpts rawOpts) = Some []
   \<and> (\<forall>filepath. buildFilter (globMatch e) scopedFS (massageDiffOpts rawOpts) filepath)
   \<and> (\<forall>ds. listChangedFiles e w profileId name rawOpts = Inr ds \<longrightarrow> ds = [])
   \<and> snd (publish e w profileId name rawOpts) = w
   \<and> snd (revert e w profileId name rawOpts) = w
   \<and> (\<forall>opened. openWorkspace e w profileId name = Inr opened \<longrightarrow>
        listChangedFiles e w profileId name rawOpts = Inr []
        \<and> publish e w profileId name rawOpts = (Inr (), w)
        \<and> revert e w profileId name rawOpts = (Inr (), w))"
proof -
  have p: "paths (massageDiffOpts rawOpts) = Some []"
    using assms by (rule massageDiffOpts_empty_paths)
  have f: "\<forall>filepath. buildFilter (globMatch e) scopedFS (massageDiffOpts rawOpts) filepath"
    using p by (simp add: buildFilter_paths makeDiffFilterByPaths_Nil)
  have l: "listChangedFiles e w profileId name rawOpts = Inr []"
    if "openWorkspace e w profileId name = Inr opened" for opened
  proof -
    obtain ws fs ar where "opened = (ws, fs, ar)" by (cases opened) auto
    with that show ?thesis
      by (simp add: listChangedFiles_opened empty_paths_diffs [OF assms])
  qed
  have l': "ds = []" if "listChangedFiles e w profileId name rawOpts = Inr ds" for ds
  proof (cases "openWorkspace e w profileId name")
    case (Inl err)
    with that show ?thesis by (simp add: listChangedFiles_def bindE_def)
  next
    case (Inr opened)
    with that l show ?thesis by simp
  qed
  have pu: "snd (publish e w profileId name rawOpts) = w"
    and re: "snd (revert e w profileId name rawOpts) = w"
    by (simp_all add: publish_empty_paths [OF assms] revert_empty_paths [OF assms] split: sum.splits)
  have ok: "publish e w profileId name rawOpts = (Inr (), w) \<and> revert e w profileId name rawOpts = (Inr (), w)"
    if "openWorkspace e w profileId name = Inr opened" for opened
    using that by (simp add: publish_empty_paths [OF assms] revert_empty_paths [OF assms])
  from p f l l' pu re ok show ?thesis by blast
qed

theorem empty_paths_excludes_everything_witness:
  "listChangedFiles sampleEnv (sampleWorld [(''/a.txt'', File ''new'')] [(''/a.txt'', File ''old'')])
      (JNum 0) ''site'' (noOpts\<lparr>arg_paths := JArr []\<rparr>) = Inr []
   \<and> publish sampleEnv (sampleWorld [(''/a.txt'', File ''new'')] [(''/a.txt'', File ''old'')])
      (JNum 0) ''site'' (noOpts\<lparr>arg_paths := JArr []\<rparr>)
     = (Inr (), sampleWorld [(''/a.txt'', File ''new'')] [(''/a.txt'', File ''old'')])
   \<and> revert sampleEnv (sampleWorld [(''/a.txt'', File ''new'')] [(''/a.txt'', File ''old'')])
      (JNum 0) ''site'' (noOpts\<lparr>arg_paths := JArr []\<rparr>)
     = (Inr (), sampleWorld [(''/a.txt'', File ''new'')] [(''/a.txt'', File ''old'')])"
proof -
  have a: "arg_paths (noOpts\<lparr>arg_paths := JArr []\<rparr>) = JArr []"
    by simp
  show ?thesis
    using empty_paths_excludes_everything [OF a, of sampleEnv "[]"
        "sampleWorld [(''/a.txt'', File ''new'')] [(''/a.txt'', File ''old'')]" "JNum 0" "''site''"]
      sample_open [of "[(''/a.txt'', File ''new'')]" "[(''/a.txt'', File ''old'')]"]
    by blast
qed

section \<open>The single-file diff\<close>

lemma openWorkspace_Inr:
  assumes "openWorkspace e w profileId name = Inr opened"
  shows "assertValidProfileId profileId = Inr ()"
    and "assertValidName e name = Inr ()"
    and "fetchWorkspace e w profileId name = Inr opened"
  using assms by (auto simp: openWorkspace_def bindE_def split: sum.splits)

lemma diff_opened:
  assumes "openWorkspace e w profileId name = Inr (ws, scopedFS, archive)"
    and "isFileNameBinary e (path_normalize filepath) \<noteq> Some True"
  shows "diff e w profileId name filepath =
     bindE (guardSide e (isFileNameBinary e (path_normalize filepath)) scopedFS (path_normalize filepath)) (\<lambda>u.
     bindE (guardSide e (isFileNameBinary e (path_normalize filepath)) archive (path_normalize filepath)) (\<lambda>u.
       Inr (DiffLines (readFile archive (path_normalize filepath))
                      (readFile scopedFS (path_normalize filepath)))))"
  using openWorkspace_Inr [OF assms(1)] assms(2)
  by (simp add: diff_def bindE_def Let_def)

lemma guardSide_cases:
  "guardSide e b fs p = Inl (InvalidEncodingError ''Cannot diff a binary file'')
   \<or> guardSide e b fs p = Inl SourceTooLargeError
   \<or> guardSide e b fs p = Inr ()"
  by (simp add: guardSide_def split: option.splits)

lemma guardSide_text:
  assumes "b = Some False \<or> \<not> fileContentBinary e fs p"
  shows "guardSide e b fs p =
     (if (\<exists>data. map_of fs p = Some (File data) \<and> 100000 < length data)
      then Inl SourceTooLargeError else Inr ())"
proof (cases "map_of fs p")
  case None
  then show ?thesis by (simp add: guardSide_def stat_def fs_stat_def)
next
  case (Some n)
  then show ?thesis
    using assms
    by (cases n) (auto simp: guardSide_def stat_def fs_stat_def MAX_DIFF_SIZE_def)
qed

lemma guardSide_unreadable:
  "fs_readFile fs p = Inl err \<Longrightarrow> guardSide e b fs p = Inr ()"
  by (auto simp: guardSide_def stat_def fs_stat_def fs_readFile_def split: option.splits node.splits)

lemma readFile_File: "map_of fs p = Some (File data) \<Longrightarrow> readFile fs p = data"
  by (simp add: readFile_def fs_readFile_def)

lemma readFile_failed: "fs_readFile fs p = Inl err \<Longrightarrow> readFile fs p = []"
  by (simp add: readFile_def)

lemma fileContentBinary_File:
  "map_of fs p = Some (File data) \<Longrightarrow> fileContentBinary e fs p = isFileContentBinary e data"
  by (simp add: fileContentBinary_def fs_readFile_def)

text \<open>
  C5. For a valid profile id and workspace name, a file path whose normalized name the
  name classifier calls binary (such as \<^verbatim>\<open>photo.png\<close>) makes the single-file diff fail with
  the encoding error, whatever the trees hold, whether or not the workspace exists and
  whether or not its archive loads: the check comes before any of them is looked at.
\<close>

theorem diff_binary_name_rejected:
  assumes "profileId = JNum n" and "validName e name"
    and "isFileNameBinary e (path_normalize filepath) = Some True"
  shows "diff e w profileId name filepath = Inl (InvalidEncodingError ''Cannot diff a binary file'')"
  using assms
  by (simp add: diff_def bindE_def assertValidProfileId_def assertValidName_def)

theorem diff_binary_name_rejected_witness:
  "diff sampleEnv (sampleWorld [(''photo.png'', File ''plain text'')] []) (JNum 0) ''site'' ''photo.png''
     = Inl (InvalidEncodingError ''Cannot diff a binary file'')
   \<and> diff (sampleEnv\<lparr>workspacesDb_get := (\<lambda>profileId name. None)\<rparr>) (sampleWorld [] [])
        (JNum 0) ''site'' ''img//photo.png''
     = Inl (InvalidEncodingError ''Cannot diff a binary file'')"
proof -
  have a: "validName sampleEnv ''site''"
    "validName (sampleEnv\<lparr>workspacesDb_get := (\<lambda>profileId name. None)\<rparr>) ''site''"
    by (simp_all add: sampleEnv_def)
  have b: "isFileNameBinary sampleEnv (path_normalize ''photo.png'') = Some True"
    "isFileNameBinary (sampleEnv\<lparr>workspacesDb_get := (\<lambda>profileId name. None)\<rparr>)
       (path_normalize ''img//photo.png'') = Some True"
    by (simp_all add: sampleEnv_def sampleNameBinary_def endsWith_def path_normalize_def path_sep_def)
  show ?thesis
    using diff_binary_name_rejected [OF refl a(1) b(1)] diff_binary_name_rejected [OF refl a(2) b(2)]
    by simp
qed

text \<open>
  C6. Once the workspace is open and the file is text (its name is not binary, and its
  name is text or its content is not binary on either side), the single-file diff fails
  with the size error if and only if the path is a file of more than 100000 bytes on one
  of the two sides; otherwise it returns the line diff. A file of exactly 100000 bytes
  is diffed, one of 100001 bytes is refused.
\<close>

theorem diff_size_ceiling:
  assumes "openWorkspace e w profileId name = Inr (ws, scopedFS, archive)"
    and "isFileNameBinary e (path_normalize filepath) \<noteq> Some True"
    and "isFileNameBinary e (path_normalize filepath) = Some False
         \<or> (\<not> fileContentBinary e scopedFS (path_normalize filepath)
             \<and> \<not> fileContentBinary e archive (path_normalize filepath))"
  shows "(diff e w profileId name filepath = Inl SourceTooLargeError
          \<longleftrightarrow> (\<exists>data. (map_of scopedFS (path_normalize filepath) = Some (File data)
                        \<or> map_of archive (path_normalize filepath) = Some (File data))
                      \<and> 100000 < length data))
       \<and> (diff e w profileId name filepath \<noteq> Inl SourceTooLargeError
          \<longrightarrow> diff e w profileId name filepath
              = Inr (DiffLines (readFile archive (path_normalize filepath))
                               (readFile scopedFS (path_normalize filepath))))"
proof -
  let ?p = "path_normalize filepath"
  let ?b = "isFileNameBinary e ?p"
  have l: "guardSide e ?b scopedFS ?p =
     (if (\<exists>data. map_of scopedFS ?p = Some (File data) \<and> 100000 < length data)
      then Inl SourceTooLargeError else Inr ())"
    using assms(3) by (intro guardSide_text) blast
  have r: "guardSide e ?b archive ?p =
     (if (\<exists>data. map_of archive ?p = Some (File data) \<and> 100000 < length data)
      then Inl SourceTooLargeError else Inr ())"
    using assms(3) by (intro guardSide_text) blast
  show ?thesis
    unfolding diff_opened [OF assms(1,2)] l r
    by (auto simp: bindE_def)
qed

lemma length_textOfLength: "length (textOfLength n) = n"
  by (simp add: textOfLength_def)

theorem diff_size_ceiling_witness:
  "diff sampleEnv (sampleWorld [(''/big.txt'', File (textOfLength 100000))] [(''/big.txt'', File ''old'')])
      (JNum 0) ''site'' ''/big.txt''
     = Inr (DiffLines ''old'' (textOfLength 100000))
   \<and> diff sampleEnv (sampleWorld [(''/big.txt'', File ''new'')] [(''/big.txt'', File (textOfLength 100001))])
      (JNum 0) ''site'' ''/big.txt''
     = Inl SourceTooLargeError"
proof -
  let ?A = "[(''/big.txt'', File (textOfLength 100000))]"
  let ?B = "[(''/big.txt'', File ''old'')]"
  let ?C = "[(''/big.txt'', File ''new'')]"
  let ?D = "[(''/big.txt'', File (textOfLength 100001))]"
  have n: "path_normalize ''/big.txt'' = ''/big.txt''"
    by (simp add: path_normalize_def path_sep_def)
  have b: "isFileNameBinary sampleEnv ''/big.txt'' = Some False"
    by (simp add: sampleEnv_def sampleNameBinary_def endsWith_def)
  have one: "diff sampleEnv (sampleWorld ?A ?B) (JNum 0) ''site'' ''/big.txt''
     = Inr (DiffLines ''old'' (textOfLength 100000))"
    using diff_size_ceiling [OF sample_open [of ?A ?B], of "''/big.txt''"]
    by (auto simp: n b length_textOfLength readFile_def fs_readFile_def)
  have two: "diff sampleEnv (sampleWorld ?C ?D) (JNum 0) ''site'' ''/big.txt''
     = Inl SourceTooLargeError"
    using diff_size_ceiling [OF sample_open [of ?C ?D], of "''/big.txt''"]
    by (auto simp: n b length_textOfLength)
  from one two show ?thesis by simp
qed

lemma diff_opened_cases:
  assumes "openWorkspace e w profileId name = Inr (ws, scopedFS, archive)"
    and "isFileNameBinary e (path_normalize filepath) \<noteq> Some True"
  shows "diff e w profileId name filepath = Inl (InvalidEncodingError ''Cannot diff a binary file'')
    \<or> diff e w profileId name filepath = Inl SourceTooLargeError
    \<or> diff e w profileId name filepath
        = Inr (DiffLines (readFile archive (path_normalize filepath))
                         (readFile scopedFS (path_normalize filepath)))"
  unfolding diff_opened [OF assms]
  using guardSide_cases [of e "isFileNameBinary e (path_normalize filepath)" scopedFS "path_normalize filepath"]
    guardSide_cases [of e "isFileNameBinary e (path_normalize filepath)" archive "path_normalize filepath"]
  by (auto simp: bindE_def)

lemma guardSide_File:
  assumes "map_of fs p = Some (File data)"
  shows "guardSide e b fs p =
     (if b \<noteq> Some False \<and> isFileContentBinary e data
      then Inl (InvalidEncodingError ''Cannot diff a binary file'')
      else if 100000 < length data then Inl SourceTooLargeError
      else Inr ())"
  using assms
  by (simp add: guardSide_def stat_def fs_stat_def MAX_DIFF_SIZE_def fileContentBinary_File)

lemma guardSide_failure:
  assumes "guardSide e b fs p = Inl failure"
  shows "\<exists>data. map_of fs p = Some (File data)
     \<and> ((failure = InvalidEncodingError ''Cannot diff a binary file''
            \<and> b \<noteq> Some False \<and> isFileContentBinary e data)
         \<or> (failure = SourceTooLargeError \<and> 100000 < length data))"
proof (cases "map_of fs p")
  case None
  then show ?thesis using assms by (simp add: guardSide_def stat_def fs_stat_def)
next
  case (Some n)
  show ?thesis
  proof (cases n)
    case (File data)
    then show ?thesis
      using assms Some guardSide_File [of fs p data e b] by (auto split: if_splits)
  next
    case Dir
    then show ?thesis using assms Some by (simp add: guardSide_def stat_def fs_stat_def)
  qed
qed

lemma diff_failure_from_a_file:
  assumes "openWorkspace e w profileId name = Inr (ws, scopedFS, archive)"
    and "isFileNameBinary e (path_normalize filepath) \<noteq> Some True"
    and "diff e w profileId name filepath = Inl failure"
  shows "\<exists>data. (map_of scopedFS (path_normalize filepath) = Some (File data)
            \<or> map_of archive (path_normalize filepath) = Some (File data))
     \<and> ((failure = InvalidEncodingError ''Cannot diff a binary file''
            \<and> isFileNameBinary e (path_normalize filepath) \<noteq> Some False
            \<and> isFileContentBinary e data)
         \<or> (failure = SourceTooLargeError \<and> 100000 < length data))"
proof -
  let ?p = "path_normalize filepath"
  let ?b = "isFileNameBinary e ?p"
  have "guardSide e ?b scopedFS ?p = Inl failure \<or> guardSide e ?b archive ?p = Inl failure"
    using assms(3) unfolding diff_opened [OF assms(1,2)]
    by (auto simp: bindE_def split: sum.splits)
  then show ?thesis
    using guardSide_failure [of e ?b scopedFS ?p failure]
      guardSide_failure [of e ?b archive ?p failure]
    by blast
qed

lemma diff_both_unreadable:
  assumes "openWorkspace e w profileId name = Inr (ws, scopedFS, archive)"
    and "isFileNameBinary e (path_normalize filepath) \<noteq> Some True"
    and "fs_readFile scopedFS (path_normalize filepath) = Inl e1"
    and "fs_readFile archive (path_normalize filepath) = Inl e2"
  shows "diff e w profileId name filepath = Inr (DiffLines [] [])"
  unfolding diff_opened [OF assms(1,2)]
  using assms(3,4)
  by (simp add: bindE_def guardSide_unreadable readFile_failed)

lemma diff_local_unreadable:
  assumes "openWorkspace e w profileId name = Inr (ws, scopedFS, archive)"
    and "isFileNameBinary e (path_normalize filepath) \<noteq> Some True"
    and "fs_readFile scopedFS (path_normalize filepath) = Inl e1"
    and "map_of archive (path_normalize filepath) = Some (File data)"
  shows "diff e w profileId name filepath =
     (if isFileNameBinary e (path_normalize filepath) \<noteq> Some False \<and> isFileContentBinary e data
      then Inl (InvalidEncodingError ''Cannot diff a binary file'')
      else if 100000 < length data then Inl SourceTooLargeError
      else Inr (DiffLines data []))"
  unfolding diff_opened [OF assms(1,2)]
  using assms(3,4)
  by (simp add: bindE_def guardSide_unreadable guardSide_File readFile_failed readFile_File)

lemma diff_archive_unreadable:
  assumes "openWorkspace e w profileId name = Inr (ws, scopedFS, archive)"
    and "isFileNameBinary e (path_normalize filepath) \<noteq> Some True"
    and "map_of scopedFS (path_normalize filepath) = Some (File data)"
    and "fs_readFile archive (path_normalize filepath) = Inl e2"
  shows "diff e w profileId name filepath =
     (if isFileNameBinary e (path_normalize filepath) \<noteq> Some False \<and> isFileContentBinary e data
      then Inl (InvalidEncodingError ''Cannot diff a binary file'')
      else if 100000 < length data then Inl SourceTooLargeError
      else Inr (DiffLines [] data))"
  unfolding diff_opened [OF assms(1,2)]
  using assms(3,4)
  by (simp add: bindE_def guardSide_unreadable guardSide_File readFile_failed readFile_File)

text \<open>
  C9. The helper \<^verbatim>\<open>stat\<close> answers null and the helper \<^verbatim>\<open>readFile\<close> the empty string on every
  error of the tree. Once the workspace is open and the name is not binary, the
  single-file diff never fails because the path is missing or cannot be read: when it
  fails, the failure is the encoding error or the size error, and it comes from a file
  that is there, with binary content or with more than 100000 bytes. A path that cannot
  be read on both sides (missing, or a directory) gives the line diff of two empty
  strings; a path that cannot be read on one side is diffed against the empty string,
  and the outcome is that of the file on the other side alone.
\<close>

theorem diff_tolerates_missing_file:
  "(fs_stat fs p = Inl err \<longrightarrow> stat fs p = None)
   \<and> (fs_readFile fs p = Inl err' \<longrightarrow> readFile fs p = [])
   \<and> (openWorkspace e w profileId name = Inr (ws, scopedFS, archive)
        \<and> isFileNameBinary e (path_normalize filepath) \<noteq> Some True
      \<longrightarrow> (diff e w profileId name filepath = Inl (InvalidEncodingError ''Cannot diff a binary file'')
           \<or> diff e w profileId name filepath = Inl SourceTooLargeError
           \<or> diff e w profileId name filepath
               = Inr (DiffLines (readFile archive (path_normalize filepath))
                                (readFile scopedFS (path_normalize filepath))))
        \<and> (\<forall>data. length data \<le> 100000 \<and> \<not> isFileContentBinary e data
              \<and> fs_readFile scopedFS (path_normalize filepath) = Inl err'
              \<and> map_of archive (path_normalize filepath) = Some (File data)
            \<longrightarrow> diff e w profileId name filepath = Inr (DiffLines data []))
        \<and> (\<forall>data. length data \<le> 100000 \<and> \<not> isFileContentBinary e data
              \<and> map_of scopedFS (path_normalize filepath) = Some (File data)
              \<and> fs_readFile archive (path_normalize filepath) = Inl err'
            \<longrightarrow> diff e w profileId name filepath = Inr (DiffLines [] data))
        \<and> (\<forall>failure. diff e w profileId name filepath = Inl failure
            \<longrightarrow> (\<exists>data. (map_of scopedFS (path_normalize filepath) = Some (File data)
                          \<or> map_of archive (path_normalize filepath) = Some (File data))
                   \<and> ((failure = InvalidEncodingError ''Cannot diff a binary file''
                          \<and> isFileNameBinary e (path_normalize filepath) \<noteq> Some False
                          \<and> isFileContentBinary e data)
                       \<or> (failure = SourceTooLargeError \<and> 100000 < length data))))
        \<and> (\<forall>e1 e2. fs_readFile scopedFS (path_normalize filepath) = Inl e1
              \<and> fs_readFile archive (path_normalize filepath) = Inl e2
            \<longrightarrow> diff e w profileId name filepath = Inr (DiffLines [] []))
        \<and> (\<forall>e1 data. fs_readFile scopedFS (path_normalize filepath) = Inl e1
              \<and> map_of archive (path_normalize filepath) = Some (File data)
            \<longrightarrow> diff e w profileId name filepath =
                 (if isFileNameBinary e (path_normalize filepath) \<noteq> Some False
                     \<and> isFileContentBinary e data
                  then Inl (InvalidEncodingError ''Cannot diff a binary file'')
                  else if 100000 < length data then Inl SourceTooLargeError
                  else Inr (DiffLines data [])))
        \<and> (\<forall>e2 data. map_of scopedFS (path_normalize filepath) = Some (File data)
              \<and> fs_readFile archive (path_normalize filepath) = Inl e2
            \<longrightarrow> diff e w profileId name filepath =
                 (if isFileNameBinary e (path_normalize filepath) \<noteq> Some False
                     \<and> isFileContentBinary e data
                  then Inl (InvalidEncodingError ''Cannot diff a binary file'')
                  else if 100000 < length data then Inl SourceTooLargeError
                  else Inr (DiffLines [] data))))"
proof (intro conjI impI allI)
  show "stat fs p = None" if "fs_stat fs p = Inl err"
    using that by (simp add: stat_def)
  show "readFile fs p = []" if "fs_readFile fs p = Inl err'"
    using that by (rule readFile_failed)
next
  assume h: "openWorkspace e w profileId name = Inr (ws, scopedFS, archive)
        \<and> isFileNameBinary e (path_normalize filepath) \<noteq> Some True"
  then have o: "openWorkspace e w profileId name = Inr (ws, scopedFS, archive)"
    and b: "isFileNameBinary e (path_normalize filepath) \<noteq> Some True"
    by simp_all
  show "diff e w profileId name filepath = Inl (InvalidEncodingError ''Cannot diff a binary file'')
           \<or> diff e w profileId name filepath = Inl SourceTooLargeError
           \<or> diff e w profileId name filepath
               = Inr (DiffLines (readFile archive (path_normalize filepath))
                                (readFile scopedFS (path_normalize filepath)))"
    using o b by (rule diff_opened_cases)
  show "diff e w profileId name filepath = Inr (DiffLines data [])"
    if "length data \<le> 100000 \<and> \<not> isFileContentBinary e data
        \<and> fs_readFile scopedFS (path_normalize filepath) = Inl err'
        \<and> map_of archive (path_normalize filepath) = Some (File data)" for data
    using that diff_local_unreadable [OF o b, of err' data] by simp
  show "diff e w profileId name filepath = Inr (DiffLines [] data)"
    if "length data \<le> 100000 \<and> \<not> isFileContentBinary e data
        \<and> map_of scopedFS (path_normalize filepath) = Some (File data)
        \<and> fs_readFile archive (path_normalize filepath) = Inl err'" for data
    using that diff_archive_unreadable [OF o b, of data err'] by simp
  show "\<exists>data. (map_of scopedFS (path_normalize filepath) = Some (File data)
                          \<or> map_of archive (path_normalize filepath) = Some (File data))
                   \<and> ((failure = InvalidEncodingError ''Cannot diff a binary file''
                          \<and> isFileNameBinary e (path_normalize filepath) \<noteq> Some False
                          \<and> isFileContentBinary e data)
                       \<or> (failure = SourceTooLargeError \<and> 100000 < length data))"
    if "diff e w profileId name filepath = Inl failure" for failure
    using o b that by (rule diff_failure_from_a_file)
  show "diff e w profileId name filepath = Inr (DiffLines [] [])"
    if "fs_readFile scopedFS (path_normalize filepath) = Inl e1
        \<and> fs_readFile archive (path_normalize filepath) = Inl e2" for e1 e2
    using that diff_both_unreadable [OF o b, of e1 e2] by simp
  show "diff e w profileId name filepath =
                 (if isFileNameBinary e (path_normalize filepath) \<noteq> Some False
                     \<and> isFileContentBinary e data
                  then Inl (InvalidEncodingError ''Cannot diff a binary file'')
                  else if 100000 < length data then Inl SourceTooLargeError
                  else Inr (DiffLines data []))"
    if "fs_readFile scopedFS (path_normalize filepath) = Inl e1
        \<and> map_of archive (path_normalize filepath) = Some (File data)" for e1 data
    using that diff_local_unreadable [OF o b, of e1 data] by simp
  show "diff e w profileId name filepath =
                 (if isFileNameBinary e (path_normalize filepath) \<noteq> Some False
                     \<and> isFileContentBinary e data
                  then Inl (InvalidEncodingError ''Cannot diff a binary file'')
                  else if 100000 < length data then Inl SourceTooLargeError
                  else Inr (DiffLines [] data))"
    if "map_of scopedFS (path_normalize filepath) = Some (File data)
        \<and> fs_readFile archive (path_normalize filepath) = Inl e2" for e2 data
    using that diff_archive_unreadable [OF o b, of data e2] by simp
qed

theorem diff_tolerates_missing_file_witness:
  "diff sampleEnv (sampleWorld [(''/new.md'', File ''draft'')] []) (JNum 0) ''site'' ''/new.md''
     = Inr (DiffLines [] ''draft'')
   \<and> diff sampleEnv (sampleWorld [(''/old.md'', Dir)] [(''/old.md'', File ''gone'')]) (JNum 0) ''site'' ''/old.md''
     = Inr (DiffLines ''gone'' [])
   \<and> diff sampleEnv (sampleWorld [] [(''/nowhere.md'', Dir)]) (JNum 0) ''site'' ''/nowhere.md''
     = Inr (DiffLines [] [])"
proof -
  let ?ws = "\<lparr>localFilesPath = ''/home/bob/site'', publishTargetUrl = ''dat://site''\<rparr>"
  have n: "path_normalize ''/new.md'' = ''/new.md''" "path_normalize ''/old.md'' = ''/old.md''"
    "path_normalize ''/nowhere.md'' = ''/nowhere.md''"
    by (simp_all add: path_normalize_def path_sep_def)
  have b: "isFileNameBinary sampleEnv ''/new.md'' \<noteq> Some True"
    "isFileNameBinary sampleEnv ''/old.md'' \<noteq> Some True"
    "isFileNameBinary sampleEnv ''/nowhere.md'' \<noteq> Some True"
    by (simp_all add: sampleEnv_def sampleNameBinary_def endsWith_def)
  have c: "\<not> isFileContentBinary sampleEnv ''draft''" "\<not> isFileContentBinary sampleEnv ''gone''"
    by (simp_all add: sampleEnv_def)
  have r: "fs_readFile [] ''/new.md'' = Inl ENOENT"
    "fs_readFile [(''/old.md'', Dir)] ''/old.md'' = Inl EISDIR"
    "fs_readFile [] ''/nowhere.md'' = Inl ENOENT"
    "fs_readFile [(''/nowhere.md'', Dir)] ''/nowhere.md'' = Inl EISDIR"
    by (simp_all add: fs_readFile_def)
  note new = diff_tolerates_missing_file [where e = sampleEnv
      and w = "sampleWorld [(''/new.md'', File ''draft'')] []" and profileId = "JNum 0"
      and name = "''site''" and ws = ?ws and scopedFS = "[(''/new.md'', File ''draft'')]"
      and archive = "[]" and filepath = "''/new.md''",
      THEN conjunct2, THEN conjunct2, THEN mp, unfolded n,
      OF conjI [OF sample_open b(1)]]
  note old = diff_tolerates_missing_file [where e = sampleEnv
      and w = "sampleWorld [(''/old.md'', Dir)] [(''/old.md'', File ''gone'')]" and profileId = "JNum 0"
      and name = "''site''" and ws = ?ws and scopedFS = "[(''/old.md'', Dir)]"
      and archive = "[(''/old.md'', File ''gone'')]" and filepath = "''/old.md''",
      THEN conjunct2, THEN conjunct2, THEN mp, unfolded n,
      OF conjI [OF sample_open b(2)]]
  note nowhere = diff_tolerates_missing_file [where e = sampleEnv
      and w = "sampleWorld [] [(''/nowhere.md'', Dir)]" and profileId = "JNum 0"
      and name = "''site''" and ws = ?ws and scopedFS = "[]"
      and archive = "[(''/nowhere.md'', Dir)]" and filepath = "''/nowhere.md''",
      THEN conjunct2, THEN conjunct2, THEN mp, unfolded n,
      OF conjI [OF sample_open b(3)]]
  have one: "diff sampleEnv (sampleWorld [(''/new.md'', File ''draft'')] []) (JNum 0) ''site'' ''/new.md''
     = Inr (DiffLines [] ''draft'')"
    using new [THEN conjunct2, THEN conjunct2, THEN conjunct2, THEN conjunct2, THEN conjunct2,
        THEN conjunct2, THEN spec, THEN spec, THEN mp, of "''draft''" ENOENT] r(1) c(1)
    by simp
  have two: "diff sampleEnv (sampleWorld [(''/old.md'', Dir)] [(''/old.md'', File ''gone'')]) (JNum 0) ''site'' ''/old.md''
     = Inr (DiffLines ''gone'' [])"
    using old [THEN conjunct2, THEN conjunct2, THEN conjunct2, THEN conjunct2, THEN conjunct2,
        THEN conjunct1, THEN spec, THEN spec, THEN mp, of EISDIR "''gone''"] r(2) c(2)
    by simp
  have three: "diff sampleEnv (sampleWorld [] [(''/nowhere.md'', Dir)]) (JNum 0) ''site'' ''/nowhere.md''
     = Inr (DiffLines [] [])"
    using nowhere [THEN conjunct2, THEN conjunct2, THEN conjunct2, THEN conjunct2,
        THEN conjunct1, THEN spec, THEN spec, THEN mp, of ENOENT EISDIR] r(3,4)
    by simp
  from one two three show ?thesis by simp
qed

section \<open>The timeout of the acquisition\<close>

lemma loadTrees_timeout:
  assumes "\<not> (\<exists>t. loadTime e (publishTargetUrl ws) = Some t \<and> t \<le> 3000)"
  shows "loadTrees e w ws = Inl TimeoutError"
  using assms by (auto simp: loadTrees_def timer_def bindE_def split: option.splits)

lemma fetchWorkspace_timeout:
  assumes "validateWorkspaceRecord e name (workspacesDb_get e profileId name) = Inr ws"
    and "\<not> (\<exists>t. loadTime e (publishTargetUrl ws) = Some t \<and> t \<le> 3000)"
  shows "fetchWorkspace e w profileId name = Inl TimeoutError"
  using assms(1) loadTrees_timeout [OF assms(2)]
  by (simp add: fetchWorkspace_def bindE_def)

text \<open>
  C7. Every operation that needs the archive (\<^verbatim>\<open>setupFolder\<close>, \<^verbatim>\<open>listChangedFiles\<close>, the
  single-file \<^verbatim>\<open>diff\<close>, \<^verbatim>\<open>publish\<close>, \<^verbatim>\<open>revert\<close>) acquires it under the timeout of 3000 ms:
  when the preconditions pass and the archive does not load within 3000 ms, the
  operation fails with the timeout error and both trees of every workspace are as they
  were.
\<close>

theorem acquisition_timeout_touches_nothing:
  assumes "profileId = JNum n" and "validName e name"
    and "validateWorkspaceRecord e name (workspacesDb_get e profileId name) = Inr ws"
    and "\<not> (\<exists>t. loadTime e (publishTargetUrl ws) = Some t \<and> t \<le> 3000)"
  shows "setupFolder e w profileId name = (Inl TimeoutError, w)
   \<and> listChangedFiles e w profileId name rawOpts = Inl TimeoutError
   \<and> publish e w profileId name rawOpts = (Inl TimeoutError, w)
   \<and> revert e w profileId name rawOpts = (Inl TimeoutError, w)
   \<and> (isFileNameBinary e (path_normalize filepath) \<noteq> Some True
        \<longrightarrow> diff e w profileId name filepath = Inl TimeoutError)"
proof -
  have f: "fetchWorkspace e w profileId name = Inl TimeoutError"
    using assms(3,4) by (rule fetchWorkspace_timeout)
  have p: "assertValidProfileId profileId = Inr ()" and v: "assertValidName e name = Inr ()"
    using assms(1,2) by (simp_all add: assertValidProfileId_def assertValidName_def)
  have o: "openWorkspace e w profileId name = Inl TimeoutError"
    by (simp add: openWorkspace_def bindE_def p v f)
  have "setupFolder e w profileId name = (Inl TimeoutError, w)"
    by (simp add: setupFolder_def bindE_def p f)
  moreover have "listChangedFiles e w profileId name rawOpts = Inl TimeoutError"
    by (simp add: listChangedFiles_def bindE_def o)
  moreover have "publish e w profileId name rawOpts = (Inl TimeoutError, w)"
    by (simp add: publish_def o)
  moreover have "revert e w profileId name rawOpts = (Inl TimeoutError, w)"
    by (simp add: revert_def o)
  moreover have "diff e w profileId name filepath = Inl TimeoutError"
    if "isFileNameBinary e (path_normalize filepath) \<noteq> Some True"
    using that by (simp add: diff_def bindE_def Let_def p v f)
  ultimately show ?thesis by blast
qed

theorem acquisition_timeout_touches_nothing_witness:
  "publish (sampleEnv\<lparr>loadTime := (\<lambda>url. None)\<rparr>)
      (sampleWorld [(''/a.txt'', File ''new'')] [(''/a.txt'', File ''old'')]) (JNum 0) ''site'' noOpts
     = (Inl TimeoutError, sampleWorld [(''/a.txt'', File ''new'')] [(''/a.txt'', File ''old'')])
   \<and> setupFolder (sampleEnv\<lparr>loadTime := (\<lambda>url. Some 3001)\<rparr>)
      (sampleWorld [] [(''/a.txt'', File ''old'')]) (JNum 0) ''site''
     = (Inl TimeoutError, sampleWorld [] [(''/a.txt'', File ''old'')])
   \<and> diff (sampleEnv\<lparr>loadTime := (\<lambda>url. Some 3001)\<rparr>)
      (sampleWorld [] [(''/a.txt'', File ''old'')]) (JNum 0) ''site'' ''/a.txt''
     = Inl TimeoutError"
proof -
  let ?ws = "\<lparr>localFilesPath = ''/home/bob/site'', publishTargetUrl = ''dat://site''\<rparr>"
  let ?never = "sampleEnv\<lparr>loadTime := (\<lambda>url. None)\<rparr>"
  let ?late = "sampleEnv\<lparr>loadTime := (\<lambda>url. Some 3001)\<rparr>"
  have v: "validName ?never ''site''" "validName ?late ''site''"
    by (simp_all add: sampleEnv_def)
  have r: "validateWorkspaceRecord ?never ''site'' (workspacesDb_get ?never (JNum 0) ''site'') = Inr ?ws"
    "validateWorkspaceRecord ?late ''site'' (workspacesDb_get ?late (JNum 0) ''site'') = Inr ?ws"
    by (simp_all add: sampleEnv_def validateWorkspaceRecord_def assertDatIsSavedAndOwned_def bindE_def)
  have t: "\<not> (\<exists>t. loadTime ?never (publishTargetUrl ?ws) = Some t \<and> t \<le> 3000)"
    "\<not> (\<exists>t. loadTime ?late (publishTargetUrl ?ws) = Some t \<and> t \<le> 3000)"
    by simp_all
  have b: "isFileNameBinary ?late (path_normalize ''/a.txt'') \<noteq> Some True"
    by (simp add: sampleEnv_def sampleNameBinary_def endsWith_def path_normalize_def path_sep_def)
  show ?thesis
    using acquisition_timeout_touches_nothing [OF refl v(1) r(1) t(1),
        of "sampleWorld [(''/a.txt'', File ''new'')] [(''/a.txt'', File ''old'')]" noOpts "[]"]
      acquisition_timeout_touches_nothing [OF refl v(2) r(2) t(2),
        of "sampleWorld [] [(''/a.txt'', File ''old'')]" noOpts "''/a.txt''"] b
    by blast
qed

end
